theory Spec2Isabelle
  imports Complex_Main "HOL-Library.Sublist" "HOL-Library.Multiset"
    "HOL-Library.Product_Lexorder" "HOL-Library.Code_Target_Numeral"
begin

section \<open>Values of the JavaScript runtime\<close>

subsection \<open>Numbers\<close>

text \<open>
  A JavaScript number is an IEEE 754 double: \<open>NaN\<close>, the two infinities, or a finite
  value. A finite double is held by its exact value as a real number; \<open>-0\<close> is
  identified with \<open>+0\<close>, which no operation used by \<open>App.js\<close> tells apart (comparison,
  subtraction, division by a positive constant, \<open>toFixed\<close>).
\<close>

datatype jsnum = NaN | PInf | NInf | Fin real

fun negate :: "jsnum \<Rightarrow> jsnum" where
  "negate NaN = NaN"
| "negate PInf = NInf"
| "negate NInf = PInf"
| "negate (Fin x) = Fin (- x)"

text \<open>
  Rounding of an exact result to the nearest double, ties to even: 53 significant bits,
  least exponent \<open>-1074\<close> (the subnormal range), overflow to infinity from \<open>2 ^ 1024\<close> on.
  \<open>bit_length n\<close> is the number of binary digits of \<open>n\<close> and \<open>ilog2 x\<close> the integer part
  of the binary logarithm of a positive \<open>x\<close>.
\<close>

fun bit_length :: "nat \<Rightarrow> nat" where
  "bit_length n = (if n = 0 then 0 else bit_length (n div 2) + 1)"

declare bit_length.simps [simp del]

definition pow2 :: "int \<Rightarrow> real" where
  "pow2 k = (if 0 \<le> k then 2 ^ nat k else 1 / 2 ^ nat (- k))"

definition ilog2 :: "real \<Rightarrow> int" where
  "ilog2 x =
     (if 1 \<le> x then int (bit_length (nat \<lfloor>x\<rfloor>)) - 1
      else - int (bit_length (nat (\<lceil>1 / x\<rceil> - 1))))"

definition round_half_even :: "real \<Rightarrow> int" where
  "round_half_even x =
     (let f = \<lfloor>x\<rfloor>; r = x - of_int f
      in if r < 1 / 2 then f else if 1 / 2 < r then f + 1
         else if even f then f else f + 1)"

definition round_positive :: "real \<Rightarrow> jsnum" where
  "round_positive x =
     (let q = max (ilog2 x - 52) (- 1074);
          v = of_int (round_half_even (x / pow2 q)) * pow2 q
      in if pow2 1024 \<le> v then PInf else Fin v)"

definition round_double :: "real \<Rightarrow> jsnum" where
  "round_double x =
     (if x = 0 then Fin 0 else if 0 < x then round_positive x
      else negate (round_positive (- x)))"

text \<open>The reals that are doubles: rounding leaves them as they are.\<close>

definition is_double :: "real \<Rightarrow> bool" where
  "is_double x = (round_double x = Fin x)"

text \<open>
  The binary \<open>-\<close> of two numbers: the exact difference, rounded. Infinities of the
  same sign cancel to \<open>NaN\<close>.
\<close>

fun js_sub :: "jsnum \<Rightarrow> jsnum \<Rightarrow> jsnum" where
  "js_sub NaN y = NaN"
| "js_sub x NaN = NaN"
| "js_sub PInf PInf = NaN"
| "js_sub NInf NInf = NaN"
| "js_sub PInf y = PInf"
| "js_sub NInf y = NInf"
| "js_sub x PInf = NInf"
| "js_sub x NInf = PInf"
| "js_sub (Fin a) (Fin b) = round_double (a - b)"

text \<open>
  \<open>Number::lessThan\<close> of the language standard, the comparison behind \<open><\<close>, \<open><=\<close>,
  \<open>>\<close> and \<open>>=\<close>: \<open>None\<close> is the standard's \<open>undefined\<close>, the answer when an operand is
  \<open>NaN\<close>.
\<close>

fun number_lessThan :: "jsnum \<Rightarrow> jsnum \<Rightarrow> bool option" where
  "number_lessThan NaN y = None"
| "number_lessThan x NaN = None"
| "number_lessThan PInf y = Some False"
| "number_lessThan x PInf = Some True"
| "number_lessThan x NInf = Some False"
| "number_lessThan NInf y = Some True"
| "number_lessThan (Fin a) (Fin b) = Some (a < b)"

subsection \<open>Values of a numeric field\<close>

text \<open>
  A numeric property of a record of the JSON response holds a number or \<open>null\<close>, or is
  absent, and then reads as \<open>undefined\<close>. \<open>ToNumber\<close> is the coercion that the
  relational and arithmetic operators apply to their operands.
\<close>

datatype jsval = JUndefined | JNull | JNum jsnum

fun ToNumber :: "jsval \<Rightarrow> jsnum" where
  "ToNumber JUndefined = NaN"
| "ToNumber JNull = Fin 0"
| "ToNumber (JNum n) = n"

text \<open>
  \<open>a >= b\<close> is true when \<open>a < b\<close> is false, and false when \<open>a < b\<close> is true or
  undefined; \<open>a <= b\<close> likewise from \<open>b < a\<close>.
\<close>

definition js_ge :: "jsval \<Rightarrow> jsval \<Rightarrow> bool" where
  "js_ge a b = (number_lessThan (ToNumber a) (ToNumber b) = Some False)"

definition js_le :: "jsval \<Rightarrow> jsval \<Rightarrow> bool" where
  "js_le a b = (number_lessThan (ToNumber b) (ToNumber a) = Some False)"

subsection \<open>Strings\<close>

text \<open>
  Strings are lists of 8-bit characters: the JavaScript strings whose code units are
  below 256. \<open>split_on c s\<close> is \<open>s.split(c)\<close> for a separator of one character; its
  result is never empty.
\<close>

fun split_on :: "char \<Rightarrow> string \<Rightarrow> string list" where
  "split_on c [] = [[]]"
| "split_on c (x # xs) =
     (if x = c then [] # split_on c xs
      else (case split_on c xs of [] \<Rightarrow> [[x]] | s # ss \<Rightarrow> (x # s) # ss))"

text \<open>
  \<open>parseInt(s)\<close> with no radix, after the standard: leading white space is dropped, then
  a sign, then a \<open>0x\<close> or \<open>0X\<close> prefix, which selects radix 16 instead of 10; the longest
  run of digits of the radix that follows is the number, \<open>NaN\<close> when that run is empty.
  The integer is held exactly before it is rounded to a double (the standard lets an
  implementation approximate decimal digits after the twentieth).
\<close>

definition is_white :: "char \<Rightarrow> bool" where
  "is_white c = (c \<in> set [CHR 0x09, CHR 0x0A, CHR 0x0B, CHR 0x0C, CHR 0x0D, CHR 0x20, CHR 0xA0])"

definition digit_value :: "char \<Rightarrow> nat option" where
  "digit_value c =
     (let n = (of_char c :: nat)
      in if 48 \<le> n \<and> n \<le> 57 then Some (n - 48)
         else if 97 \<le> n \<and> n \<le> 122 then Some (n - 87)
         else if 65 \<le> n \<and> n \<le> 90 then Some (n - 55)
         else None)"

definition is_radix_digit :: "nat \<Rightarrow> char \<Rightarrow> bool" where
  "is_radix_digit r c = (case digit_value c of None \<Rightarrow> False | Some d \<Rightarrow> d < r)"

fun radix_value :: "nat \<Rightarrow> nat \<Rightarrow> string \<Rightarrow> nat" where
  "radix_value r acc [] = acc"
| "radix_value r acc (c # cs) =
     radix_value r (acc * r + (case digit_value c of None \<Rightarrow> 0 | Some d \<Rightarrow> d)) cs"

fun strip_sign :: "string \<Rightarrow> int \<times> string" where
  "strip_sign [] = (1, [])"
| "strip_sign (c # cs) =
     (if c = CHR ''-'' then (- 1, cs) else if c = CHR ''+'' then (1, cs) else (1, c # cs))"

fun strip_prefix :: "string \<Rightarrow> nat \<times> string" where
  "strip_prefix (a # b # cs) =
     (if a = CHR ''0'' \<and> (b = CHR ''x'' \<or> b = CHR ''X'') then (16, cs) else (10, a # b # cs))"
| "strip_prefix cs = (10, cs)"

definition parseInt :: "string \<Rightarrow> jsnum" where
  "parseInt s =
     (let (sign, s1) = strip_sign (dropWhile is_white s);
          (r, s2) = strip_prefix s1;
          z = takeWhile (is_radix_digit r) s2
      in if z = [] then NaN else round_double (of_int (sign * int (radix_value r 0 z))))"

section \<open>The sort configuration and the header clicks\<close>

text \<open>
  The component state \<open>sortConfig\<close> of \<open>App.js\<close>: an object with the two string
  properties \<open>key\<close> and \<open>direction\<close>, initially \<open>{key: 'date', direction: 'asc'}\<close>.
\<close>

record sortConfig =
  key :: string
  direction :: string

definition initialSortConfig :: sortConfig where
  "initialSortConfig = \<lparr>key = ''date'', direction = ''asc''\<rparr>"

text \<open>
  \<^verbatim>\<open>
  const handleSort = (key) => {
    let direction = 'asc';
    if (sortConfig.key === key && sortConfig.direction === 'asc') {
      direction = 'desc';
    }
    setSortConfig({ key, direction });
  };
  \<close>
  The state is passed explicitly: the function takes the current configuration and
  returns the one handed to \<open>setSortConfig\<close>.
\<close>

definition handleSort :: "sortConfig \<Rightarrow> string \<Rightarrow> sortConfig" where
  "handleSort cfg k =
     (let d = (if key cfg = k \<and> direction cfg = ''asc'' then ''desc'' else ''asc'')
      in \<lparr>key = k, direction = d\<rparr>)"

section \<open>The records and the filter\<close>

text \<open>
  One element of the response array. \<open>date\<close> is a string; the numeric properties are
  read as they come (a number, \<open>null\<close>, or \<open>undefined\<close> when absent).
\<close>

record FinancialRecord =
  date :: string
  revenue :: jsval
  netIncome :: jsval
  grossProfit :: jsval
  operatingIncome :: jsval
  eps :: jsval

text \<open>
  The component state \<open>filters\<close>: an object of objects, written by
  \<open>handleFilterChange\<close> under computed property names, hence a map from names to maps
  from names to numbers.
\<close>

type_synonym bounds = "string \<rightharpoonup> jsnum"

type_synonym filterCriteria = "string \<rightharpoonup> bounds"

definition initialFilters :: filterCriteria where
  "initialFilters =
     [''yearRange'' \<mapsto> [''start'' \<mapsto> Fin 2020, ''end'' \<mapsto> Fin 2024],
      ''revenueRange'' \<mapsto> [''min'' \<mapsto> Fin 0, ''max'' \<mapsto> PInf],
      ''netIncomeRange'' \<mapsto> [''min'' \<mapsto> Fin 0, ''max'' \<mapsto> PInf]]"

datatype error = TypeError | RangeError

text \<open>
  \<open>filters.t.k\<close>: reading a property of the missing object \<open>filters.t\<close> raises a
  \<open>TypeError\<close>; a missing property \<open>k\<close> of a present object reads as \<open>undefined\<close>.
\<close>

definition read_bound :: "filterCriteria \<Rightarrow> string \<Rightarrow> string \<Rightarrow> error + jsval" where
  "read_bound fs t k =
     (case fs t of
        None \<Rightarrow> Inl TypeError
      | Some r \<Rightarrow> Inr (case r k of None \<Rightarrow> JUndefined | Some n \<Rightarrow> JNum n))"

text \<open>\<open>a && b\<close> on booleans: \<open>b\<close> is evaluated only when \<open>a\<close> is true.\<close>

definition js_and :: "error + bool \<Rightarrow> error + bool \<Rightarrow> error + bool" where
  "js_and a b = (case a of Inl e \<Rightarrow> Inl e | Inr t \<Rightarrow> if t then b else Inr False)"

text \<open>
  The callback of \<open>data.filter\<close> in \<open>applyFilters\<close>:
  \<^verbatim>\<open>
  item => {
    const year = parseInt(item.date.split('-')[0]);
    return (
      year >= filters.yearRange.start &&
      year <= filters.yearRange.end &&
      item.revenue >= filters.revenueRange.min &&
      item.revenue <= filters.revenueRange.max &&
      item.netIncome >= filters.netIncomeRange.min &&
      item.netIncome <= filters.netIncomeRange.max
    );
  }
  \<close>
  Element 0 of the split always exists; \<open>parseInt\<close> would read a missing one as the
  string \<open>undefined\<close>.
\<close>

definition keepItem :: "filterCriteria \<Rightarrow> FinancialRecord \<Rightarrow> error + bool" where
  "keepItem fs item =
     (let year = JNum (parseInt (case split_on CHR ''-'' (date item) of
                                   [] \<Rightarrow> ''undefined'' | s # _ \<Rightarrow> s))
      in js_and (js_and (js_and (js_and (js_and
           (map_sum id (js_ge year) (read_bound fs ''yearRange'' ''start''))
           (map_sum id (js_le year) (read_bound fs ''yearRange'' ''end'')))
           (map_sum id (js_ge (revenue item)) (read_bound fs ''revenueRange'' ''min'')))
           (map_sum id (js_le (revenue item)) (read_bound fs ''revenueRange'' ''max'')))
           (map_sum id (js_ge (netIncome item)) (read_bound fs ''netIncomeRange'' ''min'')))
           (map_sum id (js_le (netIncome item)) (read_bound fs ''netIncomeRange'' ''max'')))"

text \<open>
  \<open>Array.prototype.filter\<close>: the elements are visited from index 0 upwards and each one
  the callback accepts is appended to a new array; an exception of the callback ends
  the loop.
\<close>

fun filter_loop :: "('a \<Rightarrow> error + bool) \<Rightarrow> 'a list \<Rightarrow> 'a list \<Rightarrow> error + 'a list" where
  "filter_loop p [] acc = Inr acc"
| "filter_loop p (x # xs) acc =
     (case p x of
        Inl e \<Rightarrow> Inl e
      | Inr b \<Rightarrow> filter_loop p xs (if b then acc @ [x] else acc))"

definition js_filter :: "('a \<Rightarrow> error + bool) \<Rightarrow> 'a list \<Rightarrow> error + 'a list" where
  "js_filter p xs = filter_loop p xs []"

text \<open>
  \<^verbatim>\<open>
  const applyFilters = React.useCallback(() => {
    if (data) {
      const filtered = data.filter(item => { ... });
      setFilteredData(filtered);
    }
  }, [data, filters]);
  \<close>
  \<open>data\<close> is \<open>null\<close> until the response has arrived. The function returns the new value
  of the state \<open>filteredData\<close>, which is the old one when \<open>data\<close> is \<open>null\<close>.
\<close>

definition applyFilters ::
  "filterCriteria \<Rightarrow> FinancialRecord list option \<Rightarrow> FinancialRecord list
     \<Rightarrow> error + FinancialRecord list" where
  "applyFilters fs data filteredData =
     (case data of
        None \<Rightarrow> Inr filteredData
      | Some d \<Rightarrow> js_filter (keepItem fs) d)"

subsection \<open>The filter as the specification words it\<close>

text \<open>
  The year of a date is the integer formed from its leading decimal digits up to the
  first \<open>-\<close>; there is none when the date does not start with a digit.
\<close>

definition is_decimal_digit :: "char \<Rightarrow> bool" where
  "is_decimal_digit c = (c \<in> set ''0123456789'')"

definition decimal_value :: "string \<Rightarrow> nat" where
  "decimal_value ds = foldl (\<lambda>n c. 10 * n + (of_char c - 48)) 0 ds"

definition year_of_date :: "string \<Rightarrow> jsnum" where
  "year_of_date d =
     (let ds = takeWhile is_decimal_digit (takeWhile (\<lambda>c. c \<noteq> CHR ''-'') d)
      in if ds = [] then NaN else Fin (real (decimal_value ds)))"

text \<open>
  The order of the extended number line; nothing is below or above \<open>NaN\<close>. A value lies
  in an inclusive range when it is neither below the lower nor above the upper
  bound.
\<close>

fun num_le :: "jsnum \<Rightarrow> jsnum \<Rightarrow> bool" where
  "num_le NaN y = False"
| "num_le x NaN = False"
| "num_le NInf y = True"
| "num_le x PInf = True"
| "num_le PInf y = False"
| "num_le x NInf = False"
| "num_le (Fin a) (Fin b) = (a \<le> b)"

definition in_range :: "jsnum \<Rightarrow> jsnum \<Rightarrow> jsnum \<Rightarrow> bool" where
  "in_range lo hi x = (num_le lo x \<and> num_le x hi)"

text \<open>
  A field lies in an inclusive range when it is a number in that range. A field that
  is \<open>null\<close> or \<open>undefined\<close> is no number and lies in no range: it fails the comparison.
\<close>

fun lies_in :: "jsnum \<Rightarrow> jsnum \<Rightarrow> jsval \<Rightarrow> bool" where
  "lies_in lo hi (JNum x) = in_range lo hi x"
| "lies_in lo hi JNull = False"
| "lies_in lo hi JUndefined = False"

text \<open>The bound \<open>k\<close> of the range \<open>t\<close> as a number; a missing bound is no number.\<close>

definition bound :: "filterCriteria \<Rightarrow> string \<Rightarrow> string \<Rightarrow> jsnum" where
  "bound fs t k =
     (case fs t of None \<Rightarrow> NaN | Some r \<Rightarrow> (case r k of None \<Rightarrow> NaN | Some n \<Rightarrow> n))"

text \<open>The three conditions of the specification on a record.\<close>

definition in_ranges :: "filterCriteria \<Rightarrow> FinancialRecord \<Rightarrow> bool" where
  "in_ranges fs r =
     (in_range (bound fs ''yearRange'' ''start'') (bound fs ''yearRange'' ''end'')
        (year_of_date (date r))
      \<and> lies_in (bound fs ''revenueRange'' ''min'') (bound fs ''revenueRange'' ''max'')
          (revenue r)
      \<and> lies_in (bound fs ''netIncomeRange'' ''min'') (bound fs ''netIncomeRange'' ''max'')
          (netIncome r))"

text \<open>The record with the number 0 in the place of a \<open>null\<close> revenue or net income.\<close>

fun null_as_zero :: "jsval \<Rightarrow> jsval" where
  "null_as_zero JNull = JNum (Fin 0)"
| "null_as_zero v = v"

definition nulls_as_zero :: "FinancialRecord \<Rightarrow> FinancialRecord" where
  "nulls_as_zero r = r\<lparr>revenue := null_as_zero (revenue r), netIncome := null_as_zero (netIncome r)\<rparr>"

text \<open>
  A date of the data model, a string of the form \<open>YYYY-MM-DD\<close>: four digits, two digits
  and two digits, with \<open>-\<close> between them.
\<close>

definition date_form :: "string \<Rightarrow> bool" where
  "date_form d =
     (length d = 10 \<and> d ! 4 = CHR ''-'' \<and> d ! 7 = CHR ''-''
      \<and> list_all is_decimal_digit (take 4 d @ take 2 (drop 5 d) @ drop 8 d))"

text \<open>The criteria hold the three ranges (their bounds may be any numbers, or missing).\<close>

definition has_ranges :: "filterCriteria \<Rightarrow> bool" where
  "has_ranges fs =
     (fs ''yearRange'' \<noteq> None \<and> fs ''revenueRange'' \<noteq> None \<and> fs ''netIncomeRange'' \<noteq> None)"

text \<open>
  The text of the year is plain when \<open>parseInt\<close> reads nothing but decimal digits from
  it: the date does not start with white space, with \<open>+\<close> or with \<open>0x\<close>, and its leading
  digits are at most 15, so that their integer is a double. The dates of the form
  \<open>YYYY-MM-DD\<close> are plain.
\<close>

fun plain_start :: "string \<Rightarrow> bool" where
  "plain_start [] = True"
| "plain_start [a] = (\<not> is_white a \<and> a \<noteq> CHR ''+'')"
| "plain_start (a # b # cs) =
     (\<not> is_white a \<and> a \<noteq> CHR ''+'' \<and> \<not> (a = CHR ''0'' \<and> (b = CHR ''x'' \<or> b = CHR ''X'')))"

definition plain_year :: "string \<Rightarrow> bool" where
  "plain_year d = (plain_start d \<and> length (takeWhile is_decimal_digit d) \<le> 15)"

section \<open>Changes of the filter inputs\<close>

text \<open>
  \<^verbatim>\<open>
  const handleFilterChange = (e) => {
    const { name, value } = e.target;
    const [filterType, filterKey] = name.split('.');
    setFilters(prevFilters => {
      const newFilters = {
        ...prevFilters,
        [filterType]: {
          ...prevFilters[filterType],
          [filterKey]: value === '' ? (filterKey === 'max' ? Infinity : 0) : parseInt(value),
        },
      };
      applyFilters(newFilters);
      return newFilters;
    });
  };
  \<close>
  The function below is the updater handed to \<open>setFilters\<close>: from the previous criteria
  and the name and value of the changed input to the new criteria. (\<open>applyFilters\<close> takes
  no argument; its call in the updater does not touch the criteria.) A destructured
  element that the split does not have is \<open>undefined\<close>, and \<open>undefined\<close> as a computed
  property name is the string \<open>undefined\<close>; the spread of a missing object adds nothing.
\<close>

definition property_key :: "string option \<Rightarrow> string" where
  "property_key k = (case k of None \<Rightarrow> ''undefined'' | Some s \<Rightarrow> s)"

definition handleFilterChange :: "filterCriteria \<Rightarrow> string \<Rightarrow> string \<Rightarrow> filterCriteria" where
  "handleFilterChange prevFilters name val =
     (let parts = split_on CHR ''.'' name;
          filterType = (case parts of [] \<Rightarrow> None | t # _ \<Rightarrow> Some t);
          filterKey = (case parts of _ # k # _ \<Rightarrow> Some k | _ \<Rightarrow> None);
          spread = (case prevFilters (property_key filterType) of
                      None \<Rightarrow> Map.empty | Some r \<Rightarrow> r);
          v = (if val = '''' then (if filterKey = Some ''max'' then PInf else Fin 0)
               else parseInt val)
      in prevFilters(property_key filterType \<mapsto> spread(property_key filterKey \<mapsto> v)))"

text \<open>The bound \<open>k\<close> of the range \<open>t\<close> is there: reading it does not give \<open>undefined\<close>.\<close>

definition has_bound :: "filterCriteria \<Rightarrow> string \<Rightarrow> string \<Rightarrow> bool" where
  "has_bound fs t k = (case fs t of None \<Rightarrow> False | Some r \<Rightarrow> r k \<noteq> None)"

text \<open>
  The controls of the page whose \<open>onChange\<close> is \<open>handleFilterChange\<close>: the two selects
  of the year range and the four number inputs of the revenue and net income ranges.
  The name of a control is the name of its range, a point, and the name of its bound.
\<close>

datatype control = YearStart | YearEnd | RevenueMin | RevenueMax | NetIncomeMin | NetIncomeMax

fun control_range :: "control \<Rightarrow> string" where
  "control_range YearStart = ''yearRange''"
| "control_range YearEnd = ''yearRange''"
| "control_range RevenueMin = ''revenueRange''"
| "control_range RevenueMax = ''revenueRange''"
| "control_range NetIncomeMin = ''netIncomeRange''"
| "control_range NetIncomeMax = ''netIncomeRange''"

fun control_key :: "control \<Rightarrow> string" where
  "control_key YearStart = ''start''"
| "control_key YearEnd = ''end''"
| "control_key RevenueMin = ''min''"
| "control_key RevenueMax = ''max''"
| "control_key NetIncomeMin = ''min''"
| "control_key NetIncomeMax = ''max''"

definition control_name :: "control \<Rightarrow> string" where
  "control_name c = control_range c @ ''.'' @ control_key c"

text \<open>
  The options of both selects, \<open>Array.from({ length: 5 }, (_, i) => 2020 + i)\<close>, each
  with its year as value.
\<close>

definition year_options :: "string list" where
  "year_options = [''2020'', ''2021'', ''2022'', ''2023'', ''2024'']"

text \<open>
  The values that a change event of a control can carry: a select hands over the value
  of one of its options, a number input the text of its field, which may be empty.
\<close>

fun control_value :: "control \<Rightarrow> string \<Rightarrow> bool" where
  "control_value YearStart v = (v \<in> set year_options)"
| "control_value YearEnd v = (v \<in> set year_options)"
| "control_value c v = True"

text \<open>The bounds of minimum or start style; the others are of maximum or end style.\<close>

fun lower_bound :: "control \<Rightarrow> bool" where
  "lower_bound YearStart = True"
| "lower_bound RevenueMin = True"
| "lower_bound NetIncomeMin = True"
| "lower_bound c = False"

section \<open>The sorted view\<close>

text \<open>
  \<open>Array.prototype.sort\<close>. The standard fixes the result when the comparator is
  consistent on the elements: the one stable ordering by \<open>SortCompare\<close>, which reads the
  number that the comparator returns and takes \<open>NaN\<close> for \<open>+0\<close>. When the comparator is
  not consistent, the order is left to the implementation. The model is the sort of V8
  (Chrome, Node) for arrays of fewer than 64 elements, applied to arrays of every
  length: the run at the head of the array is found, reversed when it is strictly
  descending, and the remaining elements are inserted into it one by one, each at the
  point that a binary search determines. From 64 elements on, V8 sorts such runs and
  merges them, and may order the elements otherwise when the comparator is not
  consistent; when it is consistent, the result at every length, in every
  implementation, is the one of this model, and the order of the sorted view is proved
  below for consistent comparators only.
\<close>

definition SortCompare :: "('a \<Rightarrow> 'a \<Rightarrow> jsnum) \<Rightarrow> 'a \<Rightarrow> 'a \<Rightarrow> jsnum" where
  "SortCompare comparefn x y = (let v = comparefn x y in if v = NaN then Fin 0 else v)"

fun is_negative :: "jsnum \<Rightarrow> bool" where
  "is_negative NInf = True"
| "is_negative (Fin x) = (x < 0)"
| "is_negative v = False"

text \<open>
  The number of elements that continue the run after \<open>previous\<close>: a descending run goes
  on while the order of an element and the one before it is negative, an ascending run
  while it is not.
\<close>

fun run_extends :: "bool \<Rightarrow> ('a \<Rightarrow> 'a \<Rightarrow> jsnum) \<Rightarrow> 'a \<Rightarrow> 'a list \<Rightarrow> nat" where
  "run_extends descending comparefn previous [] = 0"
| "run_extends descending comparefn previous (current # rest) =
     (let order = SortCompare comparefn current previous
      in if descending = is_negative order
         then Suc (run_extends descending comparefn current rest)
         else 0)"

text \<open>The run at the head, made ascending, and the elements after it.\<close>

definition CountAndMakeRun :: "('a \<Rightarrow> 'a \<Rightarrow> jsnum) \<Rightarrow> 'a list \<Rightarrow> 'a list \<times> 'a list" where
  "CountAndMakeRun comparefn xs =
     (case xs of
        x # y # zs \<Rightarrow>
          (let descending = is_negative (SortCompare comparefn y x);
               runLength = 2 + run_extends descending comparefn y zs;
               run = take runLength xs
           in (if descending then rev run else run, drop runLength xs))
      | _ \<Rightarrow> (xs, []))"

text \<open>
  The binary search for the place of \<open>pivot\<close> in the sorted part \<open>ws\<close>, between the
  positions \<open>left\<close> and \<open>right\<close>.
\<close>

function insertion_point ::
  "('a \<Rightarrow> 'a \<Rightarrow> jsnum) \<Rightarrow> 'a \<Rightarrow> 'a list \<Rightarrow> nat \<Rightarrow> nat \<Rightarrow> nat" where
  "insertion_point comparefn pivot ws left right =
     (if left < right then
        (let mid = left + (right - left) div 2
         in if is_negative (SortCompare comparefn pivot (ws ! mid))
            then insertion_point comparefn pivot ws left mid
            else insertion_point comparefn pivot ws (mid + 1) right)
      else left)"
  by pat_completeness auto
termination
  by (relation "measure (\<lambda>(comparefn, pivot, ws, left, right). right - left)") auto

declare insertion_point.simps [simp del]

fun BinaryInsertionSort :: "('a \<Rightarrow> 'a \<Rightarrow> jsnum) \<Rightarrow> 'a list \<Rightarrow> 'a list \<Rightarrow> 'a list" where
  "BinaryInsertionSort comparefn ws [] = ws"
| "BinaryInsertionSort comparefn ws (pivot # rest) =
     (let left = insertion_point comparefn pivot ws 0 (length ws)
      in BinaryInsertionSort comparefn (take left ws @ pivot # drop left ws) rest)"

definition js_sort :: "('a \<Rightarrow> 'a \<Rightarrow> jsnum) \<Rightarrow> 'a list \<Rightarrow> 'a list" where
  "js_sort comparefn xs =
     (if length xs < 2 then xs
      else (let (run, rest) = CountAndMakeRun comparefn xs
            in BinaryInsertionSort comparefn run rest))"

text \<open>
  \<open>a[sortConfig.key]\<close> for the names of the numeric properties. The comparator reads it
  for \<open>revenue\<close> and \<open>netIncome\<close> only.
\<close>

definition property :: "string \<Rightarrow> FinancialRecord \<Rightarrow> jsval" where
  "property k r =
     (if k = ''revenue'' then revenue r
      else if k = ''netIncome'' then netIncome r
      else if k = ''grossProfit'' then grossProfit r
      else if k = ''operatingIncome'' then operatingIncome r
      else if k = ''eps'' then eps r
      else JUndefined)"

text \<open>
  The comparator of \<open>sortedData\<close>:
  \<^verbatim>\<open>
  (a, b) => {
    if (sortConfig.key === 'date') {
      const dateA = new Date(a.date);
      const dateB = new Date(b.date);
      return sortConfig.direction === 'asc' ? dateA - dateB : dateB - dateA;
    }
    if (sortConfig.key === 'revenue' || sortConfig.key === 'netIncome') {
      return sortConfig.direction === 'asc'
        ? a[sortConfig.key] - b[sortConfig.key]
        : b[sortConfig.key] - a[sortConfig.key];
    }
    return 0;
  }
  \<close>
  In a subtraction a \<open>Date\<close> object stands for its time value, a number of milliseconds
  or \<open>NaN\<close> for an invalid date. Which strings \<open>new Date\<close> accepts beyond the ISO format
  is left to the implementation, so the time value of a date string is a parameter,
  \<open>timeValue\<close>.
\<close>

definition compareRecords ::
  "(string \<Rightarrow> jsnum) \<Rightarrow> sortConfig \<Rightarrow> FinancialRecord \<Rightarrow> FinancialRecord \<Rightarrow> jsnum" where
  "compareRecords timeValue cfg a b =
     (if key cfg = ''date'' then
        (let dateA = timeValue (date a); dateB = timeValue (date b)
         in if direction cfg = ''asc'' then js_sub dateA dateB else js_sub dateB dateA)
      else if key cfg = ''revenue'' \<or> key cfg = ''netIncome'' then
        (if direction cfg = ''asc''
         then js_sub (ToNumber (property (key cfg) a)) (ToNumber (property (key cfg) b))
         else js_sub (ToNumber (property (key cfg) b)) (ToNumber (property (key cfg) a)))
      else Fin 0)"

text \<open>
  \<^verbatim>\<open>
  const sortedData = React.useMemo(() => {
    let sortableData = [...filteredData];
    if (sortConfig.key) {
      sortableData.sort((a, b) => { ... });
    }
    return sortableData;
  }, [filteredData, sortConfig]);
  \<close>
  A string is truthy when it is not empty. This is the value of the sorted view; the
  arrays behind it are in the next subsection.
\<close>

definition sortedData ::
  "(string \<Rightarrow> jsnum) \<Rightarrow> sortConfig \<Rightarrow> FinancialRecord list \<Rightarrow> FinancialRecord list" where
  "sortedData timeValue cfg filteredData =
     (let sortableData = filteredData
      in if key cfg \<noteq> '''' then js_sort (compareRecords timeValue cfg) sortableData
         else sortableData)"

subsection \<open>The arrays of the sorted view\<close>

text \<open>
  Arrays are objects in a store, a reference being the position of the array in it. The
  spread \<open>[...a]\<close> allocates a new array with the elements of \<open>a\<close>; \<open>sort\<close> rearranges
  the array it is called on, in place. A reference that the program holds is always to
  an array of the store.
\<close>

type_synonym store = "FinancialRecord list list"

definition spread_copy :: "store \<Rightarrow> nat \<Rightarrow> nat \<times> store" where
  "spread_copy h a = (length h, h @ [h ! a])"

definition sort_in_place ::
  "(FinancialRecord \<Rightarrow> FinancialRecord \<Rightarrow> jsnum) \<Rightarrow> store \<Rightarrow> nat \<Rightarrow> store" where
  "sort_in_place comparefn h a = h[a := js_sort comparefn (h ! a)]"

definition sortedData_store ::
  "(string \<Rightarrow> jsnum) \<Rightarrow> sortConfig \<Rightarrow> store \<Rightarrow> nat \<Rightarrow> nat \<times> store" where
  "sortedData_store timeValue cfg h filteredData =
     (let (sortableData, h1) = spread_copy h filteredData;
          h2 = (if key cfg \<noteq> ''''
                then sort_in_place (compareRecords timeValue cfg) h1 sortableData
                else h1)
      in (sortableData, h2))"

subsection \<open>Sort keys\<close>

text \<open>
  The number on which the comparator compares a record under the sort key \<open>k\<close>: the time
  value of the date, or the numeric value of the property.
\<close>

definition key_value :: "(string \<Rightarrow> jsnum) \<Rightarrow> string \<Rightarrow> FinancialRecord \<Rightarrow> jsnum" where
  "key_value timeValue k r = (if k = ''date'' then timeValue (date r) else ToNumber (property k r))"

text \<open>A key that is a number: an infinity, or a finite double.\<close>

fun numeric_key :: "jsnum \<Rightarrow> bool" where
  "numeric_key NaN = False"
| "numeric_key (Fin x) = is_double x"
| "numeric_key v = True"

text \<open>
  The numbers of the runtime are doubles: a value as the response holds it is \<open>null\<close>,
  \<open>undefined\<close>, or a number that, when finite, is a double.
\<close>

fun double_value :: "jsval \<Rightarrow> bool" where
  "double_value (JNum (Fin x)) = is_double x"
| "double_value v = True"

definition double_record :: "FinancialRecord \<Rightarrow> bool" where
  "double_record r =
     (double_value (revenue r) \<and> double_value (netIncome r) \<and> double_value (grossProfit r)
      \<and> double_value (operatingIncome r) \<and> double_value (eps r))"

text \<open>
  The place of a number on the extended number line, as a pair that is ordered
  lexicographically, and its place on the line turned around.
\<close>

fun line_rank :: "jsnum \<Rightarrow> int \<times> real" where
  "line_rank NInf = (- 1, 0)"
| "line_rank (Fin x) = (0, x)"
| "line_rank PInf = (1, 0)"
| "line_rank NaN = (2, 0)"

fun reverse_rank :: "jsnum \<Rightarrow> int \<times> real" where
  "reverse_rank NInf = (1, 0)"
| "reverse_rank (Fin x) = (0, - x)"
| "reverse_rank PInf = (- 1, 0)"
| "reverse_rank NaN = (2, 0)"

text \<open>
  A comparator that is consistent on the elements of \<open>A\<close>: its order of two of them is
  negative exactly when the first has the smaller key under \<open>g\<close>.
\<close>

definition orders_by ::
  "('a \<Rightarrow> 'a \<Rightarrow> jsnum) \<Rightarrow> ('a \<Rightarrow> 'b::linorder) \<Rightarrow> 'a set \<Rightarrow> bool" where
  "orders_by c g A = (\<forall>a\<in>A. \<forall>b\<in>A. is_negative (SortCompare c a b) \<longleftrightarrow> g a < g b)"

text \<open>
  The time value of a date string of the form \<open>YYYY-MM-DD\<close> with a month from 1 to 12 and
  a day from 1 to 31, as V8 reads it: the milliseconds from 1970-01-01 to the start of
  that day in UTC, a day beyond the length of the month counting on into the next
  month. Strings of other forms, which an implementation may accept in its own ways,
  are no dates here.
\<close>

definition days_from_civil :: "int \<Rightarrow> int \<Rightarrow> int \<Rightarrow> int" where
  "days_from_civil y m d =
     (let y' = (if m \<le> 2 then y - 1 else y);
          era = y' div 400;
          yoe = y' - era * 400;
          doy = (153 * (if 2 < m then m - 3 else m + 9) + 2) div 5 + d - 1;
          doe = yoe * 365 + yoe div 4 - yoe div 100 + doy
      in era * 146097 + doe - 719468)"

definition iso_time_value :: "string \<Rightarrow> jsnum" where
  "iso_time_value s =
     (let y = int (decimal_value (take 4 s));
          m = int (decimal_value (take 2 (drop 5 s)));
          d = int (decimal_value (drop 8 s))
      in if date_form s \<and> 1 \<le> m \<and> m \<le> 12 \<and> 1 \<le> d \<and> d \<le> 31
         then Fin (real_of_int (days_from_civil y m d * 86400000))
         else NaN)"

section \<open>The formatter\<close>

text \<open>
  The division of a number by a positive finite double \<open>d\<close>: the exact quotient,
  rounded.
\<close>

fun js_div_by :: "jsnum \<Rightarrow> real \<Rightarrow> jsnum" where
  "js_div_by NaN d = NaN"
| "js_div_by PInf d = PInf"
| "js_div_by NInf d = NInf"
| "js_div_by (Fin x) d = round_double (x / d)"

text \<open>The decimal digits of a natural number, without leading zeros.\<close>

definition digit_char :: "nat \<Rightarrow> char" where
  "digit_char d = ''0123456789'' ! d"

fun decimal_digits :: "nat \<Rightarrow> string" where
  "decimal_digits n =
     (if n < 10 then [digit_char n] else decimal_digits (n div 10) @ [digit_char (n mod 10)])"

declare decimal_digits.simps [simp del]

text \<open>
  \<open>Number::toString\<close> for a finite double \<open>x\<close> from \<open>10 ^ 21\<close> on, where it is the
  exponential notation \<open>d.ddde+p\<close>. The digits are the shortest that identify \<open>x\<close>: with
  \<open>n\<close> the number of digits of the integer \<open>x\<close>, they are those of an integer \<open>s\<close> of the
  least number of digits \<open>k\<close> for which \<open>s * 10 ^ (n - k)\<close> rounds to \<open>x\<close>. If an \<open>s\<close> of
  \<open>k\<close> digits does so, then so does the next one below or the next one above
  \<open>x / 10 ^ (n - k)\<close>; where both do, the nearer one is taken, as the standard
  recommends, and the lower one of two equally near. The exponent is \<open>n - 1\<close>, or \<open>n\<close>
  when the product is \<open>10 ^ n\<close>.
\<close>

function shortest_digits :: "real \<Rightarrow> nat \<Rightarrow> nat \<Rightarrow> nat \<times> nat" where
  "shortest_digits x n k =
     (let q = x / 10 ^ (n - k);
          below = nat \<lfloor>q\<rfloor>;
          above = nat \<lceil>q\<rceil>;
          fits_below = (round_double (real below * 10 ^ (n - k)) = Fin x);
          fits_above = (round_double (real above * 10 ^ (n - k)) = Fin x);
          s = (if fits_below \<and> (fits_above \<longrightarrow> q - real below \<le> real above - q)
               then below else above)
      in if n \<le> k \<or> fits_below \<or> fits_above
         then (if s = 10 ^ k then (1, n) else (s, n - 1))
         else shortest_digits x n (Suc k))"
  by pat_completeness auto
termination
  by (relation "measure (\<lambda>(x, n, k). n - k)") auto

declare shortest_digits.simps [simp del]

definition toString_large :: "real \<Rightarrow> string" where
  "toString_large x =
     (let n = length (decimal_digits (nat \<lfloor>x\<rfloor>));
          (s, p) = shortest_digits x n 1
      in (case decimal_digits s of
            [] \<Rightarrow> []
          | d # rest \<Rightarrow> d # (if rest = [] then [] else CHR ''.'' # rest))
         @ ''e+'' @ decimal_digits p)"

text \<open>
  \<open>Number.prototype.toFixed(fractionDigits)\<close>, after the standard: a \<open>RangeError\<close> for
  fraction digits outside 0 to 100; the names of the values that are not finite; from
  \<open>10 ^ 21\<close> on the text of \<open>toString\<close>; otherwise the integer \<open>n\<close> for which
  \<open>n / 10 ^ f\<close> is nearest to the value, the larger one of two, written with the point
  before its last \<open>f\<close> digits, after padding with zeros to \<open>f + 1\<close> digits.
\<close>

definition fixed_notation :: "nat \<Rightarrow> nat \<Rightarrow> string" where
  "fixed_notation n f =
     (let m = decimal_digits n
      in if f \<noteq> 0 then
           (let m = (if length m \<le> f then replicate (f + 1 - length m) CHR ''0'' @ m else m);
                k = length m
            in take (k - f) m @ ''.'' @ drop (k - f) m)
         else m)"

definition toFixed :: "jsnum \<Rightarrow> int \<Rightarrow> error + string" where
  "toFixed x fractionDigits =
     (if fractionDigits < 0 \<or> 100 < fractionDigits then Inl RangeError
      else case x of
        NaN \<Rightarrow> Inr ''NaN''
      | PInf \<Rightarrow> Inr ''Infinity''
      | NInf \<Rightarrow> Inr ''-Infinity''
      | Fin v \<Rightarrow>
          (let f = nat fractionDigits;
               s = (if v < 0 then ''-'' else '''');
               a = \<bar>v\<bar>
           in if 10 ^ 21 \<le> a then Inr (s @ toString_large a)
              else Inr (s @ fixed_notation (nat \<lfloor>a * 10 ^ f + 1 / 2\<rfloor>) f)))"

text \<open>
  \<^verbatim>\<open>
  const formatToBillions = (num) => {
    if (num === null || num === undefined) return 'N/A';
    const formattedNumber = (num / 1_000_000_000).toFixed(3);
    return `${formattedNumber} B`;
  };
  \<close>
\<close>

definition formatToBillions :: "jsval \<Rightarrow> error + string" where
  "formatToBillions num =
     (if num = JNull \<or> num = JUndefined then Inr ''N/A''
      else case toFixed (js_div_by (ToNumber num) 1000000000) 3 of
             Inl e \<Rightarrow> Inl e
           | Inr formattedNumber \<Rightarrow> Inr (formattedNumber @ '' B''))"

text \<open>
  A number of thousandths written with exactly three decimals, as the specification
  words the format.
\<close>

definition three_decimals :: "nat \<Rightarrow> string" where
  "three_decimals n =
     decimal_digits (n div 1000)
     @ ''.'' @ [digit_char (n div 100 mod 10), digit_char (n div 10 mod 10), digit_char (n mod 10)]"

section \<open>Concrete records and criteria\<close>

definition record_2020 :: FinancialRecord where
  "record_2020 =
     \<lparr>date = ''2020-09-26'', revenue = JNum (Fin 100), netIncome = JNum (Fin 50),
      grossProfit = JNum (Fin 40), operatingIncome = JNum (Fin 30), eps = JNum (Fin 3)\<rparr>"

definition record_null_revenue :: FinancialRecord where
  "record_null_revenue =
     \<lparr>date = ''2021-09-25'', revenue = JNull, netIncome = JNum (Fin 50),
      grossProfit = JNum (Fin 40), operatingIncome = JNum (Fin 30), eps = JNum (Fin 3)\<rparr>"

definition record_null_netIncome :: FinancialRecord where
  "record_null_netIncome =
     \<lparr>date = ''2021-09-25'', revenue = JNum (Fin 100), netIncome = JNull,
      grossProfit = JNum (Fin 40), operatingIncome = JNum (Fin 30), eps = JNum (Fin 3)\<rparr>"

definition record_absent_revenue :: FinancialRecord where
  "record_absent_revenue =
     \<lparr>date = ''2022-09-24'', revenue = JUndefined, netIncome = JNum (Fin 50),
      grossProfit = JNum (Fin 40), operatingIncome = JNum (Fin 30), eps = JNum (Fin 3)\<rparr>"

definition record_2023 :: FinancialRecord where
  "record_2023 =
     \<lparr>date = ''2023-09-30'', revenue = JNum (Fin 383285000000),
      netIncome = JNum (Fin 96995000000), grossProfit = JNum (Fin 169148000000),
      operatingIncome = JNum (Fin 114301000000), eps = JNum (Fin 6)\<rparr>"

definition record_2024 :: FinancialRecord where
  "record_2024 =
     \<lparr>date = ''2024-09-28'', revenue = JNum (Fin 100), netIncome = JNum (Fin 70),
      grossProfit = JNum (Fin 40), operatingIncome = JNum (Fin 30), eps = JNum (Fin 4)\<rparr>"

definition criteria_2020 :: filterCriteria where
  "criteria_2020 =
     [''yearRange'' \<mapsto> [''start'' \<mapsto> Fin 2020, ''end'' \<mapsto> Fin 2020],
      ''revenueRange'' \<mapsto> [''min'' \<mapsto> Fin 100, ''max'' \<mapsto> Fin 100],
      ''netIncomeRange'' \<mapsto> [''min'' \<mapsto> Fin 0, ''max'' \<mapsto> PInf]]"

definition criteria_2021 :: filterCriteria where
  "criteria_2021 =
     [''yearRange'' \<mapsto> [''start'' \<mapsto> Fin 2021, ''end'' \<mapsto> Fin 2024],
      ''revenueRange'' \<mapsto> [''min'' \<mapsto> Fin 100, ''max'' \<mapsto> Fin 100],
      ''netIncomeRange'' \<mapsto> [''min'' \<mapsto> Fin 0, ''max'' \<mapsto> PInf]]"

section \<open>Rounding to a double\<close>

lemma bit_length_bound: "n < 2 ^ k \<Longrightarrow> bit_length n \<le> k"
proof (induction k arbitrary: n)
  case 0
  then show ?case by (simp add: bit_length.simps)
next
  case (Suc k)
  show ?case
  proof (cases "n = 0")
    case True
    then show ?thesis by (simp add: bit_length.simps)
  next
    case False
    from Suc.prems have "n div 2 < 2 ^ k" by simp
    then have "bit_length (n div 2) \<le> k" by (rule Suc.IH)
    with False show ?thesis by (subst bit_length.simps) simp
  qed
qed

lemma round_half_even_of_int: "round_half_even (of_int k) = k"
  by (simp add: round_half_even_def)

lemma pow2_nonpos: "q \<le> 0 \<Longrightarrow> pow2 q = 1 / 2 ^ nat (- q)"
  by (cases "q = 0") (simp_all add: pow2_def)

lemma round_positive_nat:
  assumes "0 < n" "n < 2 ^ 53"
  shows "round_positive (real n) = Fin (real n)"
proof -
  define q where "q = max (ilog2 (real n) - 52) (- 1074)"
  have "bit_length n \<le> 53" using assms(2) by (rule bit_length_bound)
  moreover have "ilog2 (real n) = int (bit_length n) - 1"
    using assms(1) by (simp add: ilog2_def)
  ultimately have q: "q \<le> 0" by (simp add: q_def)
  define j where "j = nat (- q)"
  have p: "pow2 q = 1 / 2 ^ j" using q by (simp add: pow2_nonpos j_def)
  have "real n / pow2 q = of_int (int n * 2 ^ j)" by (simp add: p)
  then have "round_half_even (real n / pow2 q) = int n * 2 ^ j"
    by (simp only: round_half_even_of_int)
  then have v: "of_int (round_half_even (real n / pow2 q)) * pow2 q = real n"
    by (simp add: p)
  have "real n < 2 ^ 53" using assms(2) by (metis of_nat_less_numeral_power_cancel_iff)
  also have "\<dots> \<le> (2::real) ^ 1024" by (rule power_increasing) simp_all
  finally have "\<not> pow2 1024 \<le> real n" by (simp add: pow2_def)
  with v show ?thesis by (simp add: round_positive_def Let_def flip: q_def)
qed

lemma round_double_nat: "n < 2 ^ 53 \<Longrightarrow> round_double (real n) = Fin (real n)"
  by (cases "n = 0") (simp_all add: round_double_def round_positive_nat)

lemma bit_length_upper: "n < 2 ^ bit_length n"
proof (induction n rule: bit_length.induct)
  case (1 n)
  show ?case
  proof (cases "n = 0")
    case True
    then show ?thesis by simp
  next
    case False
    with 1 have "n div 2 < 2 ^ bit_length (n div 2)" by simp
    then have "n < 2 * 2 ^ bit_length (n div 2)" by linarith
    with False show ?thesis by (subst bit_length.simps) simp
  qed
qed

lemma bit_length_lower: "0 < n \<Longrightarrow> 2 ^ (bit_length n - 1) \<le> n"
proof (induction n rule: bit_length.induct)
  case (1 n)
  show ?case
  proof (cases "n div 2 = 0")
    case True
    with 1 have "n = 1" by linarith
    then show ?thesis by (simp add: bit_length.simps)
  next
    case False
    with 1 have ih: "2 ^ (bit_length (n div 2) - 1) \<le> n div 2" by simp
    from False have "0 < bit_length (n div 2)" by (subst bit_length.simps) simp
    then have "bit_length (n div 2) = Suc (bit_length (n div 2) - 1)" by simp
    then have "(2::nat) ^ bit_length (n div 2) = 2 * 2 ^ (bit_length (n div 2) - 1)"
      by (metis power_Suc)
    with ih have "2 ^ bit_length (n div 2) \<le> n" by linarith
    with 1 show ?thesis by (subst bit_length.simps) simp
  qed
qed

lemma pow2_powi: "pow2 k = 2 powi k"
  by (simp add: pow2_def power_int_def power_one_over inverse_eq_divide)

lemma pow2_pos: "0 < pow2 k"
  by (simp add: pow2_def)

lemma pow2_add: "pow2 (a + b) = pow2 a * pow2 b"
  by (simp add: pow2_powi power_int_add)

lemma pow2_nat: "0 \<le> k \<Longrightarrow> pow2 k = of_int (2 ^ nat k)"
  by (simp add: pow2_def)

lemma pow2_mono: "a \<le> b \<Longrightarrow> pow2 a \<le> pow2 b"
  by (simp add: pow2_powi power_int_increasing)

lemma ilog2_lower:
  assumes "0 < x"
  shows "pow2 (ilog2 x) \<le> x"
proof (cases "1 \<le> x")
  case True
  define n where "n = nat \<lfloor>x\<rfloor>"
  from True have n: "0 < n" by (simp add: n_def)
  have "real n \<le> x" using True by (simp add: n_def)
  moreover have "real (2 ^ (bit_length n - 1)) \<le> real n"
    using bit_length_lower [OF n] by (simp only: of_nat_le_iff)
  moreover have "0 < bit_length n" using n by (subst bit_length.simps) simp
  then have "pow2 (ilog2 x) = real (2 ^ (bit_length n - 1))"
    using True by (simp add: ilog2_def pow2_def n_def [symmetric] nat_diff_distrib')
  ultimately show ?thesis by linarith
next
  case False
  define m where "m = bit_length (nat (\<lceil>1 / x\<rceil> - 1))"
  have "nat (\<lceil>1 / x\<rceil> - 1) < 2 ^ m" unfolding m_def by (rule bit_length_upper)
  then have "\<lceil>1 / x\<rceil> - 1 < 2 ^ m" by (simp add: nat_less_iff)
  then have "\<lceil>1 / x\<rceil> \<le> 2 ^ m" by simp
  then have "1 / x \<le> 2 ^ m" by (simp add: ceiling_le_iff)
  with assms have "1 \<le> x * 2 ^ m" by (simp add: field_simps)
  then have "1 / 2 ^ m \<le> x" by (simp add: field_simps)
  moreover have "pow2 (ilog2 x) = 1 / 2 ^ m"
    using False by (simp add: ilog2_def m_def [symmetric] pow2_nonpos)
  ultimately show ?thesis by simp
qed

lemma round_half_even_nonneg: "0 \<le> y \<Longrightarrow> 0 \<le> round_half_even y"
  by (simp add: round_half_even_def Let_def)

lemma round_half_even_pos: "1 \<le> y \<Longrightarrow> 1 \<le> round_half_even y"
  by (simp add: round_half_even_def Let_def)

lemma round_positive_nonneg:
  assumes "0 < x"
  shows "round_positive x = PInf \<or> (\<exists>v\<ge>0. round_positive x = Fin v)"
proof -
  define q where "q = max (ilog2 x - 52) (- 1074)"
  have "0 \<le> x / pow2 q" using assms pow2_pos [of q] by simp
  then have "0 \<le> round_half_even (x / pow2 q)" by (rule round_half_even_nonneg)
  then have "0 \<le> of_int (round_half_even (x / pow2 q)) * pow2 q"
    using pow2_pos [of q] by simp
  then show ?thesis by (auto simp: round_positive_def Let_def q_def)
qed

lemma round_positive_pos:
  assumes "pow2 (- 1074) \<le> x"
  shows "round_positive x = PInf \<or> (\<exists>v>0. round_positive x = Fin v)"
proof -
  define q where "q = max (ilog2 x - 52) (- 1074)"
  from assms pow2_pos [of "- 1074"] have x: "0 < x" by linarith
  have "pow2 q \<le> x"
  proof (cases "ilog2 x - 52 \<le> - 1074")
    case True
    then have "q = - 1074" by (simp add: q_def)
    with assms show ?thesis by simp
  next
    case False
    then have "q = ilog2 x - 52" by (simp add: q_def)
    then have "pow2 q \<le> pow2 (ilog2 x)" by (simp add: pow2_mono)
    with ilog2_lower [OF x] show ?thesis by linarith
  qed
  then have "1 \<le> x / pow2 q" using pow2_pos [of q] by (simp add: field_simps)
  then have "1 \<le> round_half_even (x / pow2 q)" by (rule round_half_even_pos)
  then have "0 < of_int (round_half_even (x / pow2 q)) * pow2 q"
    using pow2_pos [of q] by simp
  then show ?thesis by (auto simp: round_positive_def Let_def q_def)
qed

lemma round_positive_grid:
  assumes "round_positive x = Fin v"
  shows "\<exists>k::int. v = of_int k * pow2 (- 1074)"
proof -
  define q where "q = max (ilog2 x - 52) (- 1074)"
  define m where "m = round_half_even (x / pow2 q)"
  from assms have v: "v = of_int m * pow2 q"
    by (simp add: round_positive_def Let_def q_def m_def split: if_splits)
  have "0 \<le> q + 1074" by (simp add: q_def)
  then have "pow2 (q + 1074) = of_int (2 ^ nat (q + 1074))" by (rule pow2_nat)
  moreover have "pow2 q = pow2 (q + 1074) * pow2 (- 1074)"
    using pow2_add [of "q + 1074" "- 1074"] by simp
  ultimately have "v = of_int (m * 2 ^ nat (q + 1074)) * pow2 (- 1074)"
    by (simp add: v)
  then show ?thesis ..
qed

lemma double_grid:
  assumes "is_double a"
  shows "\<exists>k::int. a = of_int k * pow2 (- 1074)"
proof -
  consider "a = 0" | "0 < a" | "a < 0" by linarith
  then show ?thesis
  proof cases
    case 1
    then have "a = of_int 0 * pow2 (- 1074)" by simp
    then show ?thesis ..
  next
    case 2
    with assms have "round_positive a = Fin a" by (simp add: is_double_def round_double_def)
    then show ?thesis by (rule round_positive_grid)
  next
    case 3
    with assms have "negate (round_positive (- a)) = Fin a"
      by (simp add: is_double_def round_double_def)
    then have "round_positive (- a) = Fin (- a)"
      by (cases "round_positive (- a)") simp_all
    then obtain k :: int where "- a = of_int k * pow2 (- 1074)"
      using round_positive_grid by blast
    then have "a = of_int (- k) * pow2 (- 1074)" by simp
    then show ?thesis ..
  qed
qed

lemma double_gap:
  assumes "is_double a" and "is_double b" and "b < a"
  shows "pow2 (- 1074) \<le> a - b"
proof -
  from assms obtain k l :: int
    where a: "a = of_int k * pow2 (- 1074)" and b: "b = of_int l * pow2 (- 1074)"
    using double_grid by blast
  from assms(3) have "of_int l * pow2 (- 1074) < of_int k * pow2 (- 1074)"
    by (simp only: a b)
  then have "l < k" using pow2_pos [of "- 1074"] by (simp add: mult_less_cancel_right)
  then have "1 \<le> real_of_int (k - l)" by simp
  then have "1 * pow2 (- 1074) \<le> real_of_int (k - l) * pow2 (- 1074)"
    using pow2_pos [of "- 1074"] by (intro mult_right_mono) simp_all
  then show ?thesis by (simp add: a b algebra_simps)
qed

lemma round_double_sign:
  assumes "is_double a" and "is_double b"
  shows "is_negative (round_double (a - b)) \<longleftrightarrow> a < b"
proof -
  consider "a = b" | "a < b" | "b < a" by linarith
  then show ?thesis
  proof cases
    case 1
    then show ?thesis by (simp add: round_double_def)
  next
    case 2
    from double_gap [OF assms(2) assms(1) 2] have "round_positive (b - a) = PInf
        \<or> (\<exists>v>0. round_positive (b - a) = Fin v)"
      by (rule round_positive_pos)
    with 2 show ?thesis by (auto simp: round_double_def)
  next
    case 3
    then have "0 < a - b" by simp
    from round_positive_nonneg [OF this] 3 show ?thesis
      by (auto simp: round_double_def)
  qed
qed

lemma round_double_numeral:
  "numeral n < (2::nat) ^ 53 \<Longrightarrow> round_double (numeral n) = Fin (numeral n)"
  using round_double_nat [of "numeral n"] by simp

lemma round_double_neg_numeral:
  "numeral n < (2::nat) ^ 53 \<Longrightarrow> round_double (- numeral n) = Fin (- numeral n)"
  using round_positive_nat [of "numeral n"] by (simp add: round_double_def)

lemma is_double_numeral: "numeral n < (2::nat) ^ 53 \<Longrightarrow> is_double (numeral n)"
  by (simp add: is_double_def round_double_numeral)

lemma bit_length_0 [simp]: "bit_length 0 = 0"
  by (simp add: bit_length.simps)

lemma bit_length_1 [simp]: "bit_length 1 = 1" "bit_length (Suc 0) = 1"
  by (simp_all add: bit_length.simps)

lemma bit_length_Bit0 [simp]: "bit_length (numeral (Num.Bit0 n)) = bit_length (numeral n) + 1"
  by (subst bit_length.simps) simp

lemma bit_length_Bit1 [simp]: "bit_length (numeral (Num.Bit1 n)) = bit_length (numeral n) + 1"
  by (subst bit_length.simps) simp

lemmas round_eval = round_double_def round_positive_def ilog2_def pow2_def round_half_even_def
  Let_def

section \<open>Digits and the year of a date\<close>

lemma split_on_first: "\<exists>ss. split_on c s = takeWhile (\<lambda>x. x \<noteq> c) s # ss"
  by (induction s) auto

lemma first_of_split:
  "(case split_on c s of [] \<Rightarrow> u | x # _ \<Rightarrow> x) = takeWhile (\<lambda>x. x \<noteq> c) s"
  using split_on_first [of c s] by auto


lemma of_char_literal:
  "(c = d) = ((of_char c :: nat) = of_char d)"
  by (simp add: of_char_eq_iff)

lemma decimal_digit_iff:
  "is_decimal_digit c \<longleftrightarrow> 48 \<le> (of_char c :: nat) \<and> (of_char c :: nat) \<le> 57"
  unfolding is_decimal_digit_def
  by (simp add: of_char_literal [of c]) arith

lemma radix_10_digit_aux:
  "(case (if 48 \<le> m \<and> m \<le> 57 then Some (m - 48)
          else if 97 \<le> m \<and> m \<le> 122 then Some (m - 87)
          else if 65 \<le> m \<and> m \<le> 90 then Some (m - 55)
          else None) of None \<Rightarrow> False | Some d \<Rightarrow> d < 10)
     = (48 \<le> m \<and> m \<le> (57::nat))"
  by (simp split: if_splits) arith

lemma radix_10_digit: "is_radix_digit 10 c = is_decimal_digit c"
  unfolding is_radix_digit_def digit_value_def Let_def decimal_digit_iff
  by (rule radix_10_digit_aux)

lemma decimal_digit_value:
  "is_decimal_digit c \<Longrightarrow> digit_value c = Some (of_char c - 48)"
  by (simp add: decimal_digit_iff digit_value_def)

lemma radix_value_decimal:
  "\<forall>c\<in>set ds. is_decimal_digit c \<Longrightarrow>
     radix_value 10 acc ds = foldl (\<lambda>n c. 10 * n + (of_char c - 48)) acc ds"
  by (induction ds arbitrary: acc) (simp_all add: decimal_digit_value mult.commute)

lemma decimal_value_bound_aux:
  "\<forall>c\<in>set ds. is_decimal_digit c \<Longrightarrow>
     foldl (\<lambda>n c. 10 * n + (of_char c - 48)) acc ds < ((acc::nat) + 1) * 10 ^ length ds"
proof (induction ds arbitrary: acc)
  case Nil
  then show ?case by simp
next
  case (Cons c ds)
  from Cons.prems have "48 \<le> (of_char c :: nat) \<and> (of_char c :: nat) \<le> 57"
    by (simp add: decimal_digit_iff)
  then have d: "(of_char c :: nat) - 48 \<le> 9" by arith
  let ?a = "10 * acc + (of_char c - 48)"
  have "foldl (\<lambda>n c. 10 * n + (of_char c - 48)) ?a ds < (?a + 1) * 10 ^ length ds"
    using Cons.prems by (intro Cons.IH) simp
  also have "\<dots> \<le> ((acc + 1) * 10) * 10 ^ length ds"
    by (rule mult_le_mono1) (use d in simp)
  also have "\<dots> = (acc + 1) * 10 ^ length (c # ds)" by (simp add: algebra_simps)
  finally show ?case by simp
qed

lemma decimal_value_bound:
  "\<forall>c\<in>set ds. is_decimal_digit c \<Longrightarrow> decimal_value ds < 10 ^ length ds"
  using decimal_value_bound_aux [of ds 0] by (simp add: decimal_value_def)

lemma takeWhile_takeWhile_digit:
  "takeWhile is_decimal_digit (takeWhile (\<lambda>c. c \<noteq> CHR ''-'') d) = takeWhile is_decimal_digit d"
  by (induction d) (auto simp: is_decimal_digit_def)

lemma plain_start_parse:
  assumes "plain_start d"
  shows "dropWhile is_white (takeWhile (\<lambda>c. c \<noteq> CHR ''-'') d) = takeWhile (\<lambda>c. c \<noteq> CHR ''-'') d"
    and "strip_sign (takeWhile (\<lambda>c. c \<noteq> CHR ''-'') d) = (1, takeWhile (\<lambda>c. c \<noteq> CHR ''-'') d)"
    and "strip_prefix (takeWhile (\<lambda>c. c \<noteq> CHR ''-'') d) = (10, takeWhile (\<lambda>c. c \<noteq> CHR ''-'') d)"
proof -
  show "dropWhile is_white (takeWhile (\<lambda>c. c \<noteq> CHR ''-'') d) = takeWhile (\<lambda>c. c \<noteq> CHR ''-'') d"
    using assms by (cases d rule: plain_start.cases) simp_all
  show "strip_sign (takeWhile (\<lambda>c. c \<noteq> CHR ''-'') d) = (1, takeWhile (\<lambda>c. c \<noteq> CHR ''-'') d)"
    using assms by (cases d rule: plain_start.cases) simp_all
  show "strip_prefix (takeWhile (\<lambda>c. c \<noteq> CHR ''-'') d) = (10, takeWhile (\<lambda>c. c \<noteq> CHR ''-'') d)"
    using assms by (cases d rule: plain_start.cases) auto
qed

lemma parseInt_plain:
  assumes "plain_year d"
  shows "parseInt (takeWhile (\<lambda>c. c \<noteq> CHR ''-'') d) = year_of_date d"
proof -
  let ?s = "takeWhile (\<lambda>c. c \<noteq> CHR ''-'') d"
  let ?z = "takeWhile is_decimal_digit d"
  from assms have p: "plain_start d" and l: "length ?z \<le> 15"
    by (simp_all add: plain_year_def)
  have z: "takeWhile (is_radix_digit 10) ?s = ?z"
    by (simp add: radix_10_digit [abs_def] takeWhile_takeWhile_digit)
  have digits: "\<forall>c\<in>set ?z. is_decimal_digit c"
    by (auto dest: set_takeWhileD)
  then have "decimal_value ?z < 10 ^ length ?z" by (rule decimal_value_bound)
  also have "\<dots> \<le> (10::nat) ^ 15" using l by (rule power_increasing) simp
  also have "\<dots> < 2 ^ 53" by simp
  finally have r: "round_double (real (decimal_value ?z)) = Fin (real (decimal_value ?z))"
    by (rule round_double_nat)
  have v: "radix_value 10 0 ?z = decimal_value ?z"
    using digits by (simp add: radix_value_decimal decimal_value_def)
  have "parseInt ?s = (if ?z = [] then NaN else round_double (of_int (1 * int (radix_value 10 0 ?z))))"
    by (simp add: parseInt_def plain_start_parse [OF p] z Let_def)
  also have "\<dots> = year_of_date d"
    unfolding year_of_date_def takeWhile_takeWhile_digit v Let_def using r by simp
  finally show ?thesis .
qed

section \<open>The filter: ranges, idempotence and order\<close>

lemma js_ge_num_le: "js_ge a b = num_le (ToNumber b) (ToNumber a)"
  by (cases "ToNumber a"; cases "ToNumber b") (auto simp: js_ge_def)

lemma js_le_num_le: "js_le a b = num_le (ToNumber a) (ToNumber b)"
  by (cases "ToNumber a"; cases "ToNumber b") (auto simp: js_le_def)

lemma filter_loop_total:
  "\<forall>x\<in>set xs. p x = Inr (q x) \<Longrightarrow> filter_loop p xs acc = Inr (acc @ filter q xs)"
  by (induction xs arbitrary: acc) simp_all

lemma filter_loop_Inr:
  "filter_loop p xs acc = Inr out \<Longrightarrow>
     out = acc @ filter (\<lambda>x. p x = Inr True) xs \<and> (\<forall>x\<in>set xs. \<exists>b. p x = Inr b)"
proof (induction xs arbitrary: acc)
  case Nil
  then show ?case by simp
next
  case (Cons x xs)
  then obtain b where b: "p x = Inr b"
    by (cases "p x") simp_all
  with Cons.prems have "filter_loop p xs (if b then acc @ [x] else acc) = Inr out" by simp
  from Cons.IH [OF this] b show ?case by (cases b) auto
qed

lemma filter_loop_all_true:
  "\<forall>x\<in>set xs. p x = Inr True \<Longrightarrow> filter_loop p xs acc = Inr (acc @ xs)"
  by (induction xs arbitrary: acc) simp_all

lemma js_filter_Inr:
  "js_filter p xs = Inr out \<Longrightarrow> out = filter (\<lambda>x. p x = Inr True) xs"
  using filter_loop_Inr [of p xs "[]" out] by (simp add: js_filter_def)

lemma js_filter_total:
  "\<forall>x\<in>set xs. p x = Inr (q x) \<Longrightarrow> js_filter p xs = Inr (filter q xs)"
  using filter_loop_total [of xs p q "[]"] by (simp add: js_filter_def)

lemma js_filter_idem:
  assumes "js_filter p xs = Inr out"
  shows "js_filter p out = Inr out"
proof -
  from assms have "out = filter (\<lambda>x. p x = Inr True) xs" by (rule js_filter_Inr)
  then have "\<forall>x\<in>set out. p x = Inr True" by simp
  then show ?thesis by (simp add: js_filter_def filter_loop_all_true)
qed

lemma read_bound_Some:
  "fs t = Some b \<Longrightarrow> \<exists>v. read_bound fs t k = Inr v \<and> ToNumber v = bound fs t k"
  by (simp add: read_bound_def bound_def split: option.splits)

lemma keepItem_ranges:
  assumes "has_ranges fs"
  shows "keepItem fs r = Inr
     (in_range (bound fs ''yearRange'' ''start'') (bound fs ''yearRange'' ''end'')
        (parseInt (takeWhile (\<lambda>c. c \<noteq> CHR ''-'') (date r)))
      \<and> in_range (bound fs ''revenueRange'' ''min'') (bound fs ''revenueRange'' ''max'')
          (ToNumber (revenue r))
      \<and> in_range (bound fs ''netIncomeRange'' ''min'') (bound fs ''netIncomeRange'' ''max'')
          (ToNumber (netIncome r)))"
proof -
  from assms obtain y v n where "fs ''yearRange'' = Some y" "fs ''revenueRange'' = Some v"
    "fs ''netIncomeRange'' = Some n"
    by (auto simp: has_ranges_def)
  then show ?thesis
    by (simp add: keepItem_def first_of_split read_bound_def bound_def js_and_def
        js_ge_num_le js_le_num_le in_range_def split: option.splits)
qed

lemma in_range_NaN: "in_range lo hi NaN = False"
  by (cases lo) (simp_all add: in_range_def)

lemma in_range_ToNumber: "in_range lo hi (ToNumber v) = lies_in lo hi (null_as_zero v)"
  by (cases v) (simp_all add: in_range_NaN)

lemma keepItem_in_ranges:
  "has_ranges fs \<Longrightarrow> plain_year (date r) \<Longrightarrow> keepItem fs r = Inr (in_ranges fs (nulls_as_zero r))"
  by (simp add: keepItem_ranges parseInt_plain in_ranges_def nulls_as_zero_def in_range_ToNumber)

lemma keepItem_True:
  assumes "keepItem fs r = Inr True"
  shows "has_ranges fs"
  using assms
  by (auto simp: keepItem_def js_and_def read_bound_def has_ranges_def Let_def
      split: option.splits sum.splits if_splits)

lemma applyFilters_eq_filter:
  assumes "has_ranges fs" and "\<forall>r\<in>set R. plain_year (date r)"
  shows "applyFilters fs (Some R) fd = Inr (filter (\<lambda>r. in_ranges fs (nulls_as_zero r)) R)"
  using assms by (simp add: applyFilters_def js_filter_total keepItem_in_ranges)

lemmas filter_eval = has_ranges_def plain_year_def in_ranges_def nulls_as_zero_def in_range_def
  bound_def year_of_date_def is_decimal_digit_def decimal_value_def is_white_def

lemma num_le_NaN: "num_le x NaN = False"
  by (cases x) simp_all

lemma keepItem_True_ranges:
  assumes "keepItem fs r = Inr True"
  shows "in_range (bound fs ''revenueRange'' ''min'') (bound fs ''revenueRange'' ''max'')
           (ToNumber (revenue r))
         \<and> in_range (bound fs ''netIncomeRange'' ''min'') (bound fs ''netIncomeRange'' ''max'')
             (ToNumber (netIncome r))"
  using assms keepItem_ranges [OF keepItem_True [OF assms], of r] by simp

lemma applyFilters_Inr:
  "applyFilters fs (Some R) fd = Inr out \<Longrightarrow> out = filter (\<lambda>r. keepItem fs r = Inr True) R"
  by (simp add: applyFilters_def js_filter_Inr)

lemma applyFilters_example:
  "applyFilters initialFilters (Some [record_2020, record_absent_revenue, record_null_revenue]) fd
     = Inr [record_2020, record_null_revenue]"
  using applyFilters_eq_filter
    [of initialFilters "[record_2020, record_absent_revenue, record_null_revenue]" fd]
  by (simp add: initialFilters_def record_2020_def record_absent_revenue_def
      record_null_revenue_def filter_eval)

lemma nulls_as_zero_id:
  "revenue r \<noteq> JNull \<Longrightarrow> netIncome r \<noteq> JNull \<Longrightarrow> nulls_as_zero r = r"
  by (cases "revenue r"; cases "netIncome r") (simp_all add: nulls_as_zero_def)

lemma date_form_plain:
  assumes "date_form d"
  shows "plain_year d"
proof -
  from assms have len: "length d = 10" and dash: "d ! 4 = CHR ''-''"
    and digits: "list_all is_decimal_digit (take 4 d)"
    by (simp_all add: date_form_def)
  from len obtain a b c e f rest where d: "d = a # b # c # e # f # rest"
    by (cases d rule: list.exhaust [case_product list.exhaust])
      (auto simp: length_Suc_conv numeral_eq_Suc)
  from dash digits show ?thesis
    unfolding d by (auto simp: plain_year_def is_decimal_digit_def is_white_def)
qed

text \<open>
  C1 (as amended). For every list of records of the data model, whose dates have the form
  \<open>YYYY-MM-DD\<close>, and every criteria, the filter keeps a record if and only if the three
  inclusive range conditions hold together for the record with 0 in the place of a
  \<open>null\<close> revenue or net income: the year, which is the integer formed from the leading
  digits of the date up to the first \<open>-\<close>, lies between \<open>yearRange.start\<close> and
  \<open>yearRange.end\<close>, the revenue between \<open>revenueRange.min\<close> and \<open>revenueRange.max\<close>, and
  the net income between \<open>netIncomeRange.min\<close> and \<open>netIncomeRange.max\<close>. On a list
  without \<open>null\<close> fields these are the conditions on the records themselves. An
  \<open>undefined\<close> field lies in no range.
\<close>

theorem applyFilters_keeps_in_ranges:
  assumes "has_ranges fs" and "\<forall>r\<in>set R. date_form (date r)"
  shows "applyFilters fs (Some R) fd = Inr (filter (\<lambda>r. in_ranges fs (nulls_as_zero r)) R)
    \<and> ((\<forall>r\<in>set R. revenue r \<noteq> JNull \<and> netIncome r \<noteq> JNull)
        \<longrightarrow> applyFilters fs (Some R) fd = Inr (filter (in_ranges fs) R))"
proof -
  have "\<forall>r\<in>set R. plain_year (date r)" using assms(2) by (simp add: date_form_plain)
  with assms(1)
  have eq: "applyFilters fs (Some R) fd = Inr (filter (\<lambda>r. in_ranges fs (nulls_as_zero r)) R)"
    by (rule applyFilters_eq_filter)
  moreover have "filter (\<lambda>r. in_ranges fs (nulls_as_zero r)) R = filter (in_ranges fs) R"
    if "\<forall>r\<in>set R. revenue r \<noteq> JNull \<and> netIncome r \<noteq> JNull"
    by (rule filter_cong) (use that in \<open>simp_all add: nulls_as_zero_id\<close>)
  ultimately show ?thesis by simp
qed

text \<open>
  A record whose net income is \<open>null\<close> does not meet the condition on the net income,
  in whatever range, and the filter keeps it under the initial criteria: \<open>null >= 0\<close> and
  \<open>null <= Infinity\<close> are true.
\<close>

theorem null_netIncome_kept_counterexample:
  "has_ranges initialFilters
   \<and> date_form (date record_null_netIncome)
   \<and> \<not> in_ranges initialFilters record_null_netIncome
   \<and> applyFilters initialFilters (Some [record_null_netIncome]) [] = Inr [record_null_netIncome]"
  using applyFilters_eq_filter [of initialFilters "[record_null_netIncome]" "[]"]
  by (simp add: initialFilters_def record_null_netIncome_def filter_eval date_form_def)

text \<open>
  The record with date \<open>2020-09-26\<close> and revenue 100 passes \<open>yearRange = {2020, 2020}\<close>
  with \<open>revenueRange = {min: 100, max: 100}\<close> and fails \<open>yearRange = {2021, 2024}\<close>.
\<close>

theorem applyFilters_keeps_in_ranges_witness:
  "applyFilters criteria_2020 (Some [record_2020]) [] = Inr [record_2020]
   \<and> applyFilters criteria_2021 (Some [record_2020]) [] = Inr []"
  using applyFilters_keeps_in_ranges [of criteria_2020 "[record_2020]" "[]"]
        applyFilters_keeps_in_ranges [of criteria_2021 "[record_2020]" "[]"]
  by (simp add: record_2020_def criteria_2020_def criteria_2021_def filter_eval date_form_def)

lemma keepItem_null_revenue:
  "revenue r = JNull \<Longrightarrow> keepItem fs r = keepItem fs (r\<lparr>revenue := JNum (Fin 0)\<rparr>)"
  by (simp add: keepItem_def js_ge_def [abs_def] js_le_def [abs_def])

lemma keepItem_null_netIncome:
  "netIncome r = JNull \<Longrightarrow> keepItem fs r = keepItem fs (r\<lparr>netIncome := JNum (Fin 0)\<rparr>)"
  by (simp add: keepItem_def js_ge_def [abs_def] js_le_def [abs_def])

text \<open>
  C2 (as amended). A record whose revenue or net income is \<open>undefined\<close> (the property is
  absent) fails the comparisons of that field and is excluded by the filter under every
  criteria. A \<open>null\<close> field is compared as the number 0: the filter treats the record as
  it treats the same record with 0 in that field, and excludes it whenever 0 lies
  outside the range of that field.
\<close>

theorem absent_field_excluded:
  assumes "applyFilters fs (Some R) fd = Inr out"
  shows "(revenue r = JUndefined \<or> netIncome r = JUndefined \<longrightarrow> r \<notin> set out)
    \<and> (revenue r = JNull
        \<and> \<not> in_range (bound fs ''revenueRange'' ''min'') (bound fs ''revenueRange'' ''max'') (Fin 0)
        \<longrightarrow> r \<notin> set out)
    \<and> (netIncome r = JNull
        \<and> \<not> in_range (bound fs ''netIncomeRange'' ''min'') (bound fs ''netIncomeRange'' ''max'') (Fin 0)
        \<longrightarrow> r \<notin> set out)
    \<and> (revenue r = JNull \<longrightarrow> keepItem fs r = keepItem fs (r\<lparr>revenue := JNum (Fin 0)\<rparr>))
    \<and> (netIncome r = JNull \<longrightarrow> keepItem fs r = keepItem fs (r\<lparr>netIncome := JNum (Fin 0)\<rparr>))"
proof (cases "r \<in> set out")
  case True
  with applyFilters_Inr [OF assms] have "keepItem fs r = Inr True" by simp
  from keepItem_True_ranges [OF this] show ?thesis
    using keepItem_null_revenue [of r fs] keepItem_null_netIncome [of r fs]
    by (auto simp: in_range_def num_le_NaN)
next
  case False
  then show ?thesis
    using keepItem_null_revenue [of r fs] keepItem_null_netIncome [of r fs] by simp
qed

text \<open>
  Under the initial criteria, whose revenue range is 0 to infinity, the record with a
  \<open>null\<close> revenue is kept.
\<close>

theorem null_revenue_kept_counterexample:
  "revenue record_null_revenue = JNull
   \<and> applyFilters initialFilters (Some [record_null_revenue]) [] = Inr [record_null_revenue]"
  using applyFilters_eq_filter [of initialFilters "[record_null_revenue]" "[]"]
  by (simp add: initialFilters_def record_null_revenue_def filter_eval)

theorem absent_field_excluded_witness:
  "applyFilters initialFilters
     (Some [record_2020, record_absent_revenue, record_null_revenue]) []
     = Inr [record_2020, record_null_revenue]
   \<and> record_absent_revenue \<notin> set [record_2020, record_null_revenue]"
  using absent_field_excluded [OF applyFilters_example [of "[]"], of record_absent_revenue]
    applyFilters_example [of "[]"]
  by (simp add: record_absent_revenue_def)

text \<open>
  C6. The filter is idempotent: filtering the result of the filter again, under the same
  criteria, gives that result. When the first run raises, there is no result to filter
  again, and the exception is the outcome of both sides.
\<close>

theorem applyFilters_idempotent:
  "(case applyFilters fs (Some R) fd of
      Inl e \<Rightarrow> Inl e
    | Inr out \<Rightarrow> applyFilters fs (Some out) out) = applyFilters fs (Some R) fd"
  by (cases "applyFilters fs (Some R) fd") (simp_all add: applyFilters_def js_filter_idem)

theorem applyFilters_idempotent_witness:
  "applyFilters initialFilters (Some [record_2020, record_null_revenue])
     [record_2020, record_null_revenue]
     = Inr [record_2020, record_null_revenue]"
  using applyFilters_idempotent
    [of initialFilters "[record_2020, record_absent_revenue, record_null_revenue]" "[]"]
  by (simp add: applyFilters_example)

text \<open>
  C7. The filter preserves the relative order of the surviving records: its output is
  the input with the failing records left out.
\<close>

theorem applyFilters_preserves_order:
  assumes "applyFilters fs (Some R) fd = Inr out"
  shows "subseq out R \<and> out = filter (\<lambda>r. r \<in> set out) R"
proof -
  have out: "out = filter (\<lambda>r. keepItem fs r = Inr True) R"
    using assms by (rule applyFilters_Inr)
  then have "subseq out R" by simp
  moreover have "filter (\<lambda>r. r \<in> set out) R = filter (\<lambda>r. keepItem fs r = Inr True) R"
    by (rule filter_cong) (auto simp: out)
  ultimately show ?thesis using out by simp
qed

theorem applyFilters_preserves_order_witness:
  "subseq [record_2020, record_null_revenue]
     [record_2020, record_absent_revenue, record_null_revenue]"
  using applyFilters_preserves_order [OF applyFilters_example [of "[]"]]
  by simp

section \<open>Changes of the filter inputs: normalisation of an empty bound\<close>

lemma handleFilterChange_written:
  assumes "split_on CHR ''.'' name = t # k # rest"
  shows "handleFilterChange prev name val t
     = Some ((case prev t of None \<Rightarrow> Map.empty | Some r \<Rightarrow> r)
         (k \<mapsto> (if val = '''' then (if k = ''max'' then PInf else Fin 0) else parseInt val)))"
  by (simp add: handleFilterChange_def assms property_key_def)

lemma handleFilterChange_keeps:
  "has_bound prev t k \<Longrightarrow> has_bound (handleFilterChange prev name val) t k"
  by (auto simp: handleFilterChange_def has_bound_def Let_def split: option.splits)

lemma parseInt_2023: "parseInt ''2023'' = Fin 2023"
  using parseInt_plain [of "''2023''"] by (simp add: filter_eval)

lemma split_control_name:
  "split_on CHR ''.'' (control_name c) = [control_range c, control_key c]"
  by (cases c) (simp_all add: control_name_def)

text \<open>
  C3. For every change event of the page, an empty value is normalised to 0 when the
  bound is of minimum or start style and to \<open>+infinity\<close> when it is of maximum or end
  style, and no bound is left undefined: the bound of the event is written, and every
  bound that was there before is still there. (The empty value comes from the number
  inputs only; a select hands over one of its years. The bound written for a text that
  is not empty is what \<open>parseInt\<close> reads from it.)
\<close>

theorem handleFilterChange_empty_bound:
  assumes "control_value c val"
  shows "(val = '''' \<longrightarrow>
        bound (handleFilterChange prev (control_name c) val) (control_range c) (control_key c)
          = (if lower_bound c then Fin 0 else PInf))
    \<and> (val \<noteq> '''' \<longrightarrow>
        bound (handleFilterChange prev (control_name c) val) (control_range c) (control_key c)
          = parseInt val)
    \<and> has_bound (handleFilterChange prev (control_name c) val) (control_range c) (control_key c)
    \<and> (\<forall>t k. has_bound prev t k \<longrightarrow> has_bound (handleFilterChange prev (control_name c) val) t k)"
proof -
  have "val \<noteq> ''''" if "c = YearStart \<or> c = YearEnd"
    using assms that by (auto simp: year_options_def)
  then have "val = '''' \<Longrightarrow> (control_key c = ''max'') = (\<not> lower_bound c)"
    by (cases c) simp_all
  then show ?thesis
    using handleFilterChange_written [OF split_control_name, of prev c val]
    by (auto simp: has_bound_def bound_def handleFilterChange_keeps [unfolded has_bound_def])
qed

text \<open>
  Emptying the field of the maximum revenue writes \<open>+infinity\<close>, emptying that of the
  minimum revenue writes 0, and choosing the year 2023 as the end writes 2023.
\<close>

theorem handleFilterChange_empty_bound_witness:
  "bound (handleFilterChange criteria_2020 ''revenueRange.max'' '''') ''revenueRange'' ''max'' = PInf
   \<and> bound (handleFilterChange criteria_2020 ''revenueRange.min'' '''') ''revenueRange'' ''min''
       = Fin 0
   \<and> bound (handleFilterChange criteria_2020 ''yearRange.end'' ''2023'') ''yearRange'' ''end''
       = Fin 2023"
  using handleFilterChange_empty_bound [of RevenueMax "''''" criteria_2020]
    handleFilterChange_empty_bound [of RevenueMin "''''" criteria_2020]
    handleFilterChange_empty_bound [of YearEnd "''2023''" criteria_2020]
  by (simp add: control_name_def year_options_def parseInt_2023)

section \<open>The sorted view: stability, direction and the copy\<close>

text \<open>
  On the elements on which the comparator is consistent, the sort is the stable sort by
  the key: the binary search finds the place after the last element that is not above
  the pivot, the run at the head is in order, and a run that was reversed was strictly
  descending, so that it held no two elements with the same key.
\<close>

lemma orders_by_subset: "orders_by c g A \<Longrightarrow> B \<subseteq> A \<Longrightarrow> orders_by c g B"
  by (auto simp: orders_by_def)

lemma insertion_point_bounds:
  assumes "orders_by c g (insert pivot (set ws))" and "sorted (map g ws)"
    and "left \<le> right" and "right \<le> length ws"
    and "\<forall>i<left. g (ws ! i) \<le> g pivot"
    and "\<forall>i. right \<le> i \<and> i < length ws \<longrightarrow> g pivot < g (ws ! i)"
  shows "insertion_point c pivot ws left right \<le> length ws
    \<and> (\<forall>i<insertion_point c pivot ws left right. g (ws ! i) \<le> g pivot)
    \<and> (\<forall>i. insertion_point c pivot ws left right \<le> i \<and> i < length ws \<longrightarrow> g pivot < g (ws ! i))"
  using assms
proof (induction c pivot ws left right rule: insertion_point.induct)
  case (1 c pivot ws left right)
  show ?case
  proof (cases "left < right")
    case False
    with "1.prems" have "left = right" by simp
    with "1.prems" show ?thesis by (simp add: insertion_point.simps [of c pivot ws right right])
  next
    case True
    define mid where "mid = left + (right - left) div 2"
    from True have mid: "left \<le> mid" "mid < right" by (simp_all add: mid_def) 
    with "1.prems" have midlen: "mid < length ws" by simp
    then have neg: "is_negative (SortCompare c pivot (ws ! mid)) \<longleftrightarrow> g pivot < g (ws ! mid)"
      using "1.prems"(1) by (simp add: orders_by_def)
    have sorted_nth: "g (ws ! i) \<le> g (ws ! j)" if "i \<le> j" "j < length ws" for i j
      using "1.prems"(2) that by (simp add: sorted_iff_nth_mono)
    show ?thesis
    proof (cases "g pivot < g (ws ! mid)")
      case less: True
      have "\<forall>i. mid \<le> i \<and> i < length ws \<longrightarrow> g pivot < g (ws ! i)"
        using less sorted_nth [of mid] by (meson less_le_trans)
      with "1.IH"(1) [OF True mid_def] neg less "1.prems" mid midlen
      have "insertion_point c pivot ws left mid \<le> length ws
        \<and> (\<forall>i<insertion_point c pivot ws left mid. g (ws ! i) \<le> g pivot)
        \<and> (\<forall>i. insertion_point c pivot ws left mid \<le> i \<and> i < length ws \<longrightarrow> g pivot < g (ws ! i))"
        by simp
      moreover have "insertion_point c pivot ws left right = insertion_point c pivot ws left mid"
        using True neg less by (simp add: insertion_point.simps [of c pivot ws left right] mid_def Let_def)
      ultimately show ?thesis by simp
    next
      case geq: False
      have "\<forall>i<mid + 1. g (ws ! i) \<le> g pivot"
      proof (intro allI impI)
        fix i assume "i < mid + 1"
        then have "g (ws ! i) \<le> g (ws ! mid)" using sorted_nth [of i mid] midlen by simp
        with geq show "g (ws ! i) \<le> g pivot" by simp
      qed
      with "1.IH"(2) [OF True mid_def] neg geq "1.prems" mid midlen
      have "insertion_point c pivot ws (mid + 1) right \<le> length ws
        \<and> (\<forall>i<insertion_point c pivot ws (mid + 1) right. g (ws ! i) \<le> g pivot)
        \<and> (\<forall>i. insertion_point c pivot ws (mid + 1) right \<le> i \<and> i < length ws
              \<longrightarrow> g pivot < g (ws ! i))"
        by simp
      moreover have "insertion_point c pivot ws left right
          = insertion_point c pivot ws (mid + 1) right"
        using True neg geq by (simp add: insertion_point.simps [of c pivot ws left right] mid_def Let_def)
      ultimately show ?thesis by simp
    qed
  qed
qed


lemma insert_at_point:
  fixes g :: "'a \<Rightarrow> 'b::linorder"
  assumes "sorted (map g ws)" and "r \<le> length ws"
    and low: "\<forall>i<r. g (ws ! i) \<le> g p"
    and high: "\<forall>i. r \<le> i \<and> i < length ws \<longrightarrow> g p < g (ws ! i)"
  shows "sorted (map g (take r ws @ p # drop r ws))"
    and "filter (\<lambda>x. k = g x) (take r ws @ p # drop r ws) = filter (\<lambda>x. k = g x) (ws @ [p])"
proof -
  have A: "g x \<le> g p" if "x \<in> set (take r ws)" for x
  proof -
    from that obtain i where "i < length (take r ws)" "x = take r ws ! i"
      by (auto simp: in_set_conv_nth)
    then show ?thesis using low by simp
  qed
  have B: "g p < g x" if "x \<in> set (drop r ws)" for x
  proof -
    from that obtain i where "i < length (drop r ws)" "x = drop r ws ! i"
      by (auto simp: in_set_conv_nth)
    then show ?thesis using high assms(2) by simp
  qed
  have "sorted (take r (map g ws))" "sorted (drop r (map g ws))"
    using assms(1) by (simp_all add: sorted_wrt_take sorted_wrt_drop)
  then have "sorted (map g (take r ws))" "sorted (map g (drop r ws))"
    by (simp_all add: take_map drop_map)
  then show "sorted (map g (take r ws @ p # drop r ws))"
    using A B by (fastforce simp: sorted_append)
  have "filter (\<lambda>x. k = g x) ws
      = filter (\<lambda>x. k = g x) (take r ws) @ filter (\<lambda>x. k = g x) (drop r ws)"
    by (simp flip: filter_append)
  moreover have "filter (\<lambda>x. k = g x) (drop r ws) = []" if "k = g p"
    unfolding filter_empty_conv
  proof (intro ballI)
    fix x assume "x \<in> set (drop r ws)"
    then have "g p < g x" by (rule B)
    then show "\<not> k = g x" using that by simp
  qed
  ultimately show "filter (\<lambda>x. k = g x) (take r ws @ p # drop r ws)
      = filter (\<lambda>x. k = g x) (ws @ [p])"
    by simp
qed

lemma mset_insert_at: "mset (take r ws @ p # drop r ws) = add_mset p (mset ws)"
proof -
  have "mset (take r ws) + mset (drop r ws) = mset ws"
    by (metis append_take_drop_id mset_append)
  then show ?thesis by simp
qed

lemma BinaryInsertionSort_sorts:
  assumes "orders_by c g (set ws \<union> set rest)" and "sorted (map g ws)"
  shows "sorted (map g (BinaryInsertionSort c ws rest))
    \<and> mset (BinaryInsertionSort c ws rest) = mset ws + mset rest
    \<and> (\<forall>k. filter (\<lambda>x. k = g x) (BinaryInsertionSort c ws rest)
          = filter (\<lambda>x. k = g x) (ws @ rest))"
  using assms
proof (induction rest arbitrary: ws)
  case Nil
  then show ?case by simp
next
  case (Cons pivot rest)
  define r where "r = insertion_point c pivot ws 0 (length ws)"
  define ws' where "ws' = take r ws @ pivot # drop r ws"
  have "orders_by c g (insert pivot (set ws))"
    using Cons.prems(1) by (rule orders_by_subset) auto
  moreover have "\<forall>i<0. g (ws ! i) \<le> g pivot"
    and "\<forall>i. length ws \<le> i \<and> i < length ws \<longrightarrow> g pivot < g (ws ! i)"
    by auto
  ultimately have "insertion_point c pivot ws 0 (length ws) \<le> length ws
    \<and> (\<forall>i<insertion_point c pivot ws 0 (length ws). g (ws ! i) \<le> g pivot)
    \<and> (\<forall>i. insertion_point c pivot ws 0 (length ws) \<le> i \<and> i < length ws
          \<longrightarrow> g pivot < g (ws ! i))"
    using Cons.prems(2) by (intro insertion_point_bounds) simp_all
  then have r: "r \<le> length ws" "\<forall>i<r. g (ws ! i) \<le> g pivot"
    "\<forall>i. r \<le> i \<and> i < length ws \<longrightarrow> g pivot < g (ws ! i)"
    by (simp_all add: r_def)
  have s: "sorted (map g ws')"
    unfolding ws'_def by (rule insert_at_point(1) [OF Cons.prems(2) r])
  have f: "filter (\<lambda>x. k = g x) ws' = filter (\<lambda>x. k = g x) (ws @ [pivot])" for k
    unfolding ws'_def by (rule insert_at_point(2) [OF Cons.prems(2) r])
  have m: "mset ws' = add_mset pivot (mset ws)"
    unfolding ws'_def by (rule mset_insert_at)
  then have "set_mset (mset ws') = set_mset (add_mset pivot (mset ws))" by simp
  then have "set ws' = insert pivot (set ws)" by simp
  then have "orders_by c g (set ws' \<union> set rest)" using Cons.prems(1) by simp
  from Cons.IH [OF this s] f m
  have "sorted (map g (BinaryInsertionSort c ws' rest))
    \<and> mset (BinaryInsertionSort c ws' rest) = mset ws + mset (pivot # rest)
    \<and> (\<forall>k. filter (\<lambda>x. k = g x) (BinaryInsertionSort c ws' rest)
          = filter (\<lambda>x. k = g x) (ws @ pivot # rest))"
    by simp
  moreover have "BinaryInsertionSort c ws (pivot # rest) = BinaryInsertionSort c ws' rest"
    by (simp add: ws'_def r_def Let_def)
  ultimately show ?case by simp
qed

lemma run_extends_run:
  assumes "orders_by c g (insert previous (set rest))"
  shows "successively (\<lambda>a b. if d then g b < g a else g a \<le> g b)
      (previous # take (run_extends d c previous rest) rest)"
  using assms
proof (induction rest arbitrary: previous)
  case Nil
  show ?case by simp
next
  case (Cons current rest)
  have "orders_by c g (insert current (set rest))"
    using Cons.prems by (rule orders_by_subset) auto
  then have "successively (\<lambda>a b. if d then g b < g a else g a \<le> g b)
      (current # take (run_extends d c current rest) rest)"
    by (rule Cons.IH)
  moreover have "is_negative (SortCompare c current previous) \<longleftrightarrow> g current < g previous"
    using Cons.prems by (simp add: orders_by_def)
  ultimately show ?case by (cases d) (simp_all add: Let_def not_less)
qed

lemma filter_rev_descending:
  fixes g :: "'a \<Rightarrow> 'b::linorder"
  shows "sorted_wrt (\<lambda>a b. g b < g a) xs
    \<Longrightarrow> filter (\<lambda>x. k = g x) (rev xs) = filter (\<lambda>x. k = g x) xs"
proof (induction xs)
  case Nil
  show ?case by simp
next
  case (Cons a xs)
  then have IH: "filter (\<lambda>x. k = g x) (rev xs) = filter (\<lambda>x. k = g x) xs"
    and below: "\<forall>x\<in>set xs. g x < g a"
    by simp_all
  have "filter (\<lambda>x. k = g x) xs = []" if "k = g a"
    unfolding filter_empty_conv
  proof (intro ballI)
    fix x assume "x \<in> set xs"
    with below have "g x < g a" by simp
    then show "\<not> k = g x" using that by simp
  qed
  with IH show ?case by simp
qed

lemma CountAndMakeRun_run:
  assumes "orders_by c g (set xs)" and "CountAndMakeRun c xs = (run, rest)"
  shows "sorted (map g run)" and "mset run + mset rest = mset xs"
    and "filter (\<lambda>x. k = g x) (run @ rest) = filter (\<lambda>x. k = g x) xs"
proof -
  show "sorted (map g run)" "mset run + mset rest = mset xs"
    "filter (\<lambda>x. k = g x) (run @ rest) = filter (\<lambda>x. k = g x) xs"
  proof (atomize (full), cases xs)
    case Nil
    with assms(2) show "sorted (map g run) \<and> mset run + mset rest = mset xs
      \<and> filter (\<lambda>x. k = g x) (run @ rest) = filter (\<lambda>x. k = g x) xs"
      by (simp add: CountAndMakeRun_def)
  next
    case (Cons x ys)
    show "sorted (map g run) \<and> mset run + mset rest = mset xs
      \<and> filter (\<lambda>x. k = g x) (run @ rest) = filter (\<lambda>x. k = g x) xs"
    proof (cases ys)
      case Nil
      with Cons assms(2) show ?thesis by (auto simp: CountAndMakeRun_def)
    next
      case (Cons y zs)
      define d where "d = is_negative (SortCompare c y x)"
      define n where "n = run_extends d c y zs"
      define head where "head = x # y # take n zs"
      have xs: "xs = x # y # zs" using \<open>xs = x # ys\<close> Cons by simp
      have d: "d \<longleftrightarrow> g y < g x" using assms(1) by (simp add: d_def orders_by_def xs)
      have "CountAndMakeRun c xs
          = (if d then rev (take (2 + n) xs) else take (2 + n) xs, drop (2 + n) xs)"
        by (simp only: CountAndMakeRun_def xs list.case Let_def d_def n_def)
      moreover have "take (2 + n) xs = head" "drop (2 + n) xs = drop n zs"
        by (simp_all add: xs head_def)
      ultimately have run: "run = (if d then rev head else head)" and rest: "rest = drop n zs"
        using assms(2) by simp_all
      have whole: "head @ rest = xs" by (simp add: head_def rest xs)
      have "orders_by c g (insert y (set zs))"
        using assms(1) by (rule orders_by_subset) (auto simp: xs)
      then have "successively (\<lambda>a b. if d then g b < g a else g a \<le> g b) (y # take n zs)"
        unfolding n_def by (rule run_extends_run)
      then have succ: "successively (\<lambda>a b. if d then g b < g a else g a \<le> g b) head"
        using d by (auto simp: head_def not_less)
      have m: "mset run + mset rest = mset xs"
        using whole [symmetric] by (simp add: run)
      show ?thesis
      proof (cases d)
        case True
        with succ have "successively (\<lambda>a b. g b < g a) head" by simp
        then have desc: "sorted_wrt (\<lambda>a b. g b < g a) head"
          by (subst (asm) successively_conv_sorted_wrt) (auto simp: transp_def)
        then have "sorted_wrt (\<lambda>a b. g a < g b) (rev head)" by (simp add: sorted_wrt_rev)
        then have "sorted_wrt (\<lambda>a b. g a \<le> g b) (rev head)"
          by (rule sorted_wrt_mono_rel [rotated]) simp
        then have "sorted (map g run)" using True by (simp add: run sorted_map)
        moreover have "filter (\<lambda>x. k = g x) (run @ rest) = filter (\<lambda>x. k = g x) xs"
          using filter_rev_descending [OF desc, of k] True whole [symmetric]
          by (simp add: run)
        ultimately show ?thesis using m by simp
      next
        case False
        with succ have "successively (\<lambda>a b. g a \<le> g b) head" by simp
        then have "sorted_wrt (\<lambda>a b. g a \<le> g b) head"
          by (subst (asm) successively_conv_sorted_wrt) (auto simp: transp_def)
        then have "sorted (map g run)" using False by (simp add: run sorted_map)
        moreover have "filter (\<lambda>x. k = g x) (run @ rest) = filter (\<lambda>x. k = g x) xs"
          using False whole by (simp add: run)
        ultimately show ?thesis using m by simp
      qed
    qed
  qed
qed

lemma js_sort_sort_key:
  assumes "orders_by c g (set xs)"
  shows "js_sort c xs = sort_key g xs"
proof (cases "length xs < 2")
  case True
  then have "xs = [] \<or> (\<exists>x. xs = [x])"
    by (cases xs) (auto simp: less_Suc_eq_0_disj numeral_2_eq_2)
  then show ?thesis using True by (auto simp: js_sort_def)
next
  case False
  obtain run rest where cr: "CountAndMakeRun c xs = (run, rest)" by fastforce
  note R = CountAndMakeRun_run [OF assms cr]
  have "set_mset (mset run + mset rest) = set_mset (mset xs)" by (simp only: R(2))
  then have "set run \<union> set rest = set xs" by simp
  with assms have "orders_by c g (set run \<union> set rest)" by simp
  from BinaryInsertionSort_sorts [OF this R(1)]
  have S: "sorted (map g (BinaryInsertionSort c run rest))"
    "mset (BinaryInsertionSort c run rest) = mset xs"
    "\<And>k. filter (\<lambda>x. k = g x) (BinaryInsertionSort c run rest) = filter (\<lambda>x. k = g x) xs"
    using R(2,3) by simp_all
  have "sort_key g xs = BinaryInsertionSort c run rest"
    by (rule properties_for_sort_key) (use S in simp_all)
  then show ?thesis using False by (simp add: js_sort_def cr)
qed

lemma compareRecords_keys:
  "compareRecords tv cfg a b =
     (if key cfg = ''date'' \<or> key cfg = ''revenue'' \<or> key cfg = ''netIncome''
      then (if direction cfg = ''asc''
            then js_sub (key_value tv (key cfg) a) (key_value tv (key cfg) b)
            else js_sub (key_value tv (key cfg) b) (key_value tv (key cfg) a))
      else Fin 0)"
  by (simp add: compareRecords_def key_value_def Let_def)

lemma sortedData_store_frame:
  assumes "a < length h" and "sortedData_store tv cfg h a = (b, h')"
  shows "b \<noteq> a" and "\<forall>c<length h. h' ! c = h ! c" and "h' ! b = sortedData tv cfg (h ! a)"
    and "length h' = Suc (length h)"
  using assms
  by (auto simp: sortedData_store_def spread_copy_def sort_in_place_def sortedData_def
      nth_append nth_list_update split: if_splits)

lemma is_negative_SortCompare: "is_negative (SortCompare c x y) = is_negative (c x y)"
  by (simp add: SortCompare_def Let_def)

lemma js_sub_rank:
  assumes "numeric_key v" and "numeric_key w"
  shows "is_negative (js_sub v w) \<longleftrightarrow> line_rank v < line_rank w"
  using assms by (cases v; cases w) (simp_all add: round_double_sign)

lemma js_sub_reverse_rank:
  assumes "numeric_key v" and "numeric_key w"
  shows "is_negative (js_sub w v) \<longleftrightarrow> reverse_rank v < reverse_rank w"
  using assms by (cases v; cases w) (simp_all add: round_double_sign)

lemma reverse_rank_le:
  "v \<noteq> NaN \<Longrightarrow> w \<noteq> NaN \<Longrightarrow> reverse_rank v \<le> reverse_rank w \<longleftrightarrow> line_rank w \<le> line_rank v"
  by (cases v; cases w) simp_all

lemma line_rank_inj: "line_rank v = line_rank w \<Longrightarrow> v = w"
  by (cases v; cases w) simp_all

lemma reverse_rank_inj: "reverse_rank v = reverse_rank w \<Longrightarrow> v = w"
  by (cases v; cases w) simp_all

lemma reverse_of_descending:
  fixes f :: "'a \<Rightarrow> jsnum"
  assumes num: "\<forall>r\<in>set R. f r \<noteq> NaN"
    and dist: "distinct (map f R)"
  shows "rev (sort_key (\<lambda>r. reverse_rank (f r)) R) = sort_key (\<lambda>r. line_rank (f r)) R"
proof -
  let ?ga = "\<lambda>r. line_rank (f r)" and ?gd = "\<lambda>r. reverse_rank (f r)"
  let ?A = "sort_key ?ga R" and ?D = "sort_key ?gd R"
  from dist have dR: "distinct R" and injf: "inj_on f (set R)"
    by (simp_all add: distinct_map)
  have inj: "inj_on ?ga (set R)"
    using injf by (auto simp: inj_on_def dest: line_rank_inj)
  have "sorted (map ?gd ?D)" by (rule sorted_sort_key)
  then have "sorted_wrt (\<lambda>x y. ?gd x \<le> ?gd y) ?D" by (simp add: sorted_wrt_map)
  then have "sorted_wrt (\<lambda>x y. ?ga y \<le> ?ga x) ?D"
    by (rule sorted_wrt_mono_rel [rotated]) (use num in \<open>simp add: reverse_rank_le\<close>)
  then have "sorted_wrt (\<lambda>x y. ?ga x \<le> ?ga y) (rev ?D)" by (simp add: sorted_wrt_rev)
  then have s1: "sorted (map ?ga (rev ?D))" by (simp add: sorted_wrt_map)
  have s2: "sorted (map ?ga ?A)" by (rule sorted_sort_key)
  have d1: "distinct (map ?ga (rev ?D))" using dR inj by (simp add: distinct_map)
  have d2: "distinct (map ?ga ?A)" using dR inj by (simp add: distinct_map)
  have "set (map ?ga (rev ?D)) = set (map ?ga ?A)" by simp
  with s1 d1 s2 d2 have "map ?ga (rev ?D) = map ?ga ?A"
    by (rule sorted_distinct_set_unique)
  moreover have "inj_on ?ga (set (rev ?D) \<union> set ?A)" using inj by simp
  ultimately show ?thesis by (simp add: inj_on_map_eq_map)
qed

lemma sortedData_ascending:
  assumes k: "key cfg = ''date'' \<or> key cfg = ''revenue'' \<or> key cfg = ''netIncome''"
    and d: "direction cfg = ''asc''"
    and num: "\<forall>r\<in>set R. numeric_key (key_value tv (key cfg) r)"
  shows "sortedData tv cfg R = sort_key (\<lambda>r. line_rank (key_value tv (key cfg) r)) R"
proof -
  have "orders_by (compareRecords tv cfg) (\<lambda>r. line_rank (key_value tv (key cfg) r)) (set R)"
    unfolding orders_by_def
    using k d num by (simp add: is_negative_SortCompare compareRecords_keys js_sub_rank)
  then have "js_sort (compareRecords tv cfg) R
      = sort_key (\<lambda>r. line_rank (key_value tv (key cfg) r)) R"
    by (rule js_sort_sort_key)
  moreover have "key cfg \<noteq> []" using k by auto
  ultimately show ?thesis by (simp add: sortedData_def)
qed

lemma sortedData_descending:
  assumes k: "key cfg = ''date'' \<or> key cfg = ''revenue'' \<or> key cfg = ''netIncome''"
    and d: "direction cfg \<noteq> ''asc''"
    and num: "\<forall>r\<in>set R. numeric_key (key_value tv (key cfg) r)"
  shows "sortedData tv cfg R = sort_key (\<lambda>r. reverse_rank (key_value tv (key cfg) r)) R"
proof -
  have "orders_by (compareRecords tv cfg) (\<lambda>r. reverse_rank (key_value tv (key cfg) r)) (set R)"
    unfolding orders_by_def
    using k d num by (simp add: is_negative_SortCompare compareRecords_keys js_sub_reverse_rank)
  then have "js_sort (compareRecords tv cfg) R
      = sort_key (\<lambda>r. reverse_rank (key_value tv (key cfg) r)) R"
    by (rule js_sort_sort_key)
  moreover have "key cfg \<noteq> []" using k by auto
  ultimately show ?thesis by (simp add: sortedData_def)
qed

lemma sortedData_unrecognised:
  assumes "\<not> (key cfg = ''date'' \<or> key cfg = ''revenue'' \<or> key cfg = ''netIncome'')"
  shows "sortedData tv cfg R = R"
proof -
  have "orders_by (compareRecords tv cfg) (\<lambda>r. 0 :: int) (set R)"
    unfolding orders_by_def using assms
    by (simp add: is_negative_SortCompare compareRecords_keys)
  then have "js_sort (compareRecords tv cfg) R = sort_key (\<lambda>r. 0 :: int) R"
    by (rule js_sort_sort_key)
  moreover have "sort_key (\<lambda>r. 0 :: int) R = R"
    using sort_key_stable [of "\<lambda>r. 0 :: int" 0 R] by simp
  ultimately show ?thesis by (simp add: sortedData_def)
qed

lemma sortedData_stable_aux:
  assumes "key cfg = ''date'' \<or> key cfg = ''revenue'' \<or> key cfg = ''netIncome''
      \<Longrightarrow> \<forall>r\<in>set R. numeric_key (key_value tv (key cfg) r)"
  shows "filter (\<lambda>r. key_value tv (key cfg) r = v) (sortedData tv cfg R)
     = filter (\<lambda>r. key_value tv (key cfg) r = v) R"
proof (cases "key cfg = ''date'' \<or> key cfg = ''revenue'' \<or> key cfg = ''netIncome''")
  case False
  then have "sortedData tv cfg R = R" by (rule sortedData_unrecognised)
  then show ?thesis by simp
next
  case True
  note num = assms [OF True]
  let ?f = "key_value tv (key cfg)"
  show ?thesis
  proof (cases "direction cfg = ''asc''")
    case asc: True
    have "(\<lambda>r. ?f r = v) = (\<lambda>r. line_rank (?f r) = line_rank v)"
      by (auto dest: line_rank_inj)
    then show ?thesis
      by (simp only: sortedData_ascending [OF True asc num] sort_key_stable)
  next
    case desc: False
    have "(\<lambda>r. ?f r = v) = (\<lambda>r. reverse_rank (?f r) = reverse_rank v)"
      by (auto dest: reverse_rank_inj)
    then show ?thesis
      by (simp only: sortedData_descending [OF True desc num] sort_key_stable)
  qed
qed

lemma sortedData_reverse_aux:
  assumes k: "k = ''date'' \<or> k = ''revenue'' \<or> k = ''netIncome''"
    and num: "\<forall>r\<in>set R. numeric_key (key_value tv k r)"
    and dist: "distinct (map (key_value tv k) R)"
  shows "rev (sortedData tv \<lparr>key = k, direction = ''desc''\<rparr> R)
     = sortedData tv \<lparr>key = k, direction = ''asc''\<rparr> R"
proof -
  let ?f = "key_value tv k"
  have a: "sortedData tv \<lparr>key = k, direction = ''asc''\<rparr> R = sort_key (\<lambda>r. line_rank (?f r)) R"
    using sortedData_ascending [of "\<lparr>key = k, direction = ''asc''\<rparr>" R tv] k num by simp
  have d: "sortedData tv \<lparr>key = k, direction = ''desc''\<rparr> R
      = sort_key (\<lambda>r. reverse_rank (?f r)) R"
    using sortedData_descending [of "\<lparr>key = k, direction = ''desc''\<rparr>" R tv] k num by simp
  have "\<forall>r\<in>set R. ?f r \<noteq> NaN" using num by auto
  from reverse_of_descending [OF this dist] show ?thesis
    by (simp only: a d)
qed

lemma compareRecords_desc:
  "compareRecords tv (cfg\<lparr>direction := ''desc''\<rparr>) a b
     = compareRecords tv (cfg\<lparr>direction := ''asc''\<rparr>) b a"
  by (simp add: compareRecords_def Let_def)

lemma round_double_zero: "round_double 0 = Fin 0"
  by (simp add: round_double_def)

lemma insertion_point_done: "\<not> left < right \<Longrightarrow> insertion_point c p ws left right = left"
  by (simp add: insertion_point.simps)

lemma insertion_point_left:
  "left < right \<Longrightarrow> is_negative (SortCompare c p (ws ! (left + (right - left) div 2)))
    \<Longrightarrow> insertion_point c p ws left right
      = insertion_point c p ws left (left + (right - left) div 2)"
  by (subst insertion_point.simps) (simp add: Let_def)

lemma insertion_point_right:
  "left < right \<Longrightarrow> \<not> is_negative (SortCompare c p (ws ! (left + (right - left) div 2)))
    \<Longrightarrow> insertion_point c p ws left right
      = insertion_point c p ws (left + (right - left) div 2 + 1) right"
  by (subst insertion_point.simps) (simp add: Let_def)

lemmas sort_eval = sortedData_def js_sort_def CountAndMakeRun_def insertion_point_done
  insertion_point_left insertion_point_right
  is_negative_SortCompare compareRecords_def property_def key_value_def Let_def
  round_double_zero round_double_numeral round_double_neg_numeral is_double_numeral

lemmas record_defs = record_2020_def record_2023_def record_2024_def record_null_revenue_def
  record_absent_revenue_def

lemmas date_eval = iso_time_value_def date_form_def days_from_civil_def decimal_value_def
  is_decimal_digit_def

lemma iso_time_value_examples:
  "iso_time_value ''2020-09-26'' = Fin 1601078400000"
  "iso_time_value ''2023-09-30'' = Fin 1696032000000"
  "iso_time_value ''2024-09-28'' = Fin 1727481600000"
  by (simp_all add: date_eval)

text \<open>
  What the filter keeps has a number in the revenue and in the net income: an
  \<open>undefined\<close> field fails the comparisons, and a \<open>null\<close> one is compared as 0.
\<close>

lemma is_double_zero: "is_double 0"
  by (simp add: is_double_def round_double_zero)

lemma numeric_key_ToNumber: "double_value v \<Longrightarrow> ToNumber v \<noteq> NaN \<Longrightarrow> numeric_key (ToNumber v)"
  by (cases v rule: double_value.cases) (simp_all add: is_double_zero)

lemma filtered_numeric:
  assumes out: "applyFilters fs (Some data) fd = Inr R"
    and dbl: "\<forall>r\<in>set data. double_record r"
    and k: "k = ''revenue'' \<or> k = ''netIncome''"
  shows "\<forall>r\<in>set R. numeric_key (key_value tv k r)"
proof
  fix r assume "r \<in> set R"
  with applyFilters_Inr [OF out] have r: "r \<in> set data" and kept: "keepItem fs r = Inr True"
    by simp_all
  from keepItem_True_ranges [OF kept]
  have "ToNumber (revenue r) \<noteq> NaN" and "ToNumber (netIncome r) \<noteq> NaN"
    by (auto simp: in_range_NaN)
  moreover from dbl r have "double_value (revenue r)" and "double_value (netIncome r)"
    by (simp_all add: double_record_def)
  ultimately have "numeric_key (ToNumber (revenue r))" and "numeric_key (ToNumber (netIncome r))"
    by (simp_all add: numeric_key_ToNumber)
  with k show "numeric_key (key_value tv k r)"
    by (auto simp: key_value_def property_def)
qed

lemma sort_input_numeric:
  assumes "key cfg = ''date'' \<longrightarrow> (\<forall>r\<in>set R. numeric_key (tv (date r)))"
    and "key cfg = ''revenue'' \<or> key cfg = ''netIncome''
      \<longrightarrow> applyFilters fs (Some data) fd = Inr R \<and> (\<forall>r\<in>set data. double_record r)"
    and "key cfg = ''date'' \<or> key cfg = ''revenue'' \<or> key cfg = ''netIncome''"
  shows "\<forall>r\<in>set R. numeric_key (key_value tv (key cfg) r)"
proof (cases "key cfg = ''date''")
  case True
  with assms(1) show ?thesis by (simp add: key_value_def)
next
  case False
  with assms(3) have k: "key cfg = ''revenue'' \<or> key cfg = ''netIncome''" by simp
  with assms(2) have "applyFilters fs (Some data) fd = Inr R" and "\<forall>r\<in>set data. double_record r"
    by simp_all
  then show ?thesis using k by (rule filtered_numeric)
qed

lemma applyFilters_four:
  "applyFilters initialFilters
     (Some [record_2024, record_absent_revenue, record_2023, record_2020]) []
     = Inr [record_2024, record_2023, record_2020]"
  using applyFilters_eq_filter
    [of initialFilters "[record_2024, record_absent_revenue, record_2023, record_2020]" "[]"]
  by (simp add: initialFilters_def record_defs filter_eval)

lemma applyFilters_null_revenue:
  "applyFilters initialFilters
     (Some [record_2023, record_absent_revenue, record_null_revenue, record_2020]) []
     = Inr [record_2023, record_null_revenue, record_2020]"
  using applyFilters_eq_filter
    [of initialFilters "[record_2023, record_absent_revenue, record_null_revenue, record_2020]" "[]"]
  by (simp add: initialFilters_def record_defs filter_eval)

text \<open>
  C4. The sort is stable in both directions: the records that are equal on the selected
  key stand in the output in the order in which they stand in the input. The direction
  \<open>desc\<close> swaps the operands of the comparator, which reverses its sign; nothing
  reverses the array. The list sorted is the state \<open>filteredData\<close>. It holds the response
  as fetched until the filter has run for the first time, which is before a header can
  be clicked, the sort key still being \<open>date\<close>; from then on it holds a result of the
  filter. Hence the list is any list when the key is \<open>date\<close>, its dates being those of
  the data model, which have a time value, and a result of the filter when the key is
  \<open>revenue\<close> or \<open>netIncome\<close>, the numbers of the response being doubles. For any other
  key the comparator answers 0 and the list stays as it is.
\<close>

theorem sortedData_stable:
  assumes "key cfg = ''date'' \<longrightarrow> (\<forall>r\<in>set R. numeric_key (timeValue (date r)))"
    and "key cfg = ''revenue'' \<or> key cfg = ''netIncome''
      \<longrightarrow> applyFilters fs (Some data) fd = Inr R \<and> (\<forall>r\<in>set data. double_record r)"
  shows "filter (\<lambda>r. key_value timeValue (key cfg) r = v) (sortedData timeValue cfg R)
     = filter (\<lambda>r. key_value timeValue (key cfg) r = v) R
   \<and> compareRecords timeValue (cfg\<lparr>direction := ''desc''\<rparr>) a b
     = compareRecords timeValue (cfg\<lparr>direction := ''asc''\<rparr>) b a"
  using sortedData_stable_aux [of cfg R timeValue v] sort_input_numeric [OF assms]
    compareRecords_desc [of timeValue cfg a b]
  by simp

text \<open>
  The initial criteria keep three of four records, of which the first and the last have
  the revenue 100. Sorted by descending revenue, the record with the largest revenue
  comes first, and the two with the revenue 100 follow in the order of the input.
\<close>

theorem sortedData_stable_witness:
  "applyFilters initialFilters
     (Some [record_2024, record_absent_revenue, record_2023, record_2020]) []
     = Inr [record_2024, record_2023, record_2020]
   \<and> sortedData iso_time_value \<lparr>key = ''revenue'', direction = ''desc''\<rparr>
     [record_2024, record_2023, record_2020] = [record_2023, record_2024, record_2020]
   \<and> filter (\<lambda>r. revenue r = JNum (Fin 100)) [record_2023, record_2024, record_2020]
     = [record_2024, record_2020]"
  using sortedData_stable [of "\<lparr>key = ''revenue'', direction = ''desc''\<rparr>"
      "[record_2024, record_2023, record_2020]" iso_time_value initialFilters
      "[record_2024, record_absent_revenue, record_2023, record_2020]" "[]" "Fin 100"]
    applyFilters_four
  by (simp add: sort_eval record_defs double_record_def)

text \<open>
  C5. For every list that the sorted view receives and every recognised sort key such
  that no two records of the list are equal on that key, the reverse of the descending
  sort is the ascending sort. The list is any list when the key is \<open>date\<close>, its dates
  being those of the data model, which have a time value, and a result of the filter
  when the key is \<open>revenue\<close> or \<open>netIncome\<close>, the numbers of the response being doubles.
  Two records are equal on the key when the comparator subtracts equal numbers: equal
  time values, or equal fields, a \<open>null\<close> field being the number 0.
\<close>

theorem sortedData_reverse:
  assumes "k = ''date'' \<or> k = ''revenue'' \<or> k = ''netIncome''"
    and "k = ''date'' \<longrightarrow> (\<forall>r\<in>set R. numeric_key (timeValue (date r)))"
    and "k = ''revenue'' \<or> k = ''netIncome''
      \<longrightarrow> applyFilters fs (Some data) fd = Inr R \<and> (\<forall>r\<in>set data. double_record r)"
    and "distinct (map (key_value timeValue k) R)"
  shows "rev (sortedData timeValue \<lparr>key = k, direction = ''desc''\<rparr> R)
     = sortedData timeValue \<lparr>key = k, direction = ''asc''\<rparr> R"
proof -
  have "\<forall>r\<in>set R. numeric_key (key_value timeValue (key \<lparr>key = k, direction = ''asc''\<rparr>) r)"
    by (rule sort_input_numeric [where fs = fs and data = data and fd = fd])
      (use assms in simp_all)
  then have "\<forall>r\<in>set R. numeric_key (key_value timeValue k r)" by simp
  with assms(1) show ?thesis using assms(4) by (rule sortedData_reverse_aux)
qed

text \<open>
  Three records sorted by date, and the three records that the initial criteria keep of
  four, one of them with a \<open>null\<close> revenue, sorted by revenue.
\<close>

theorem sortedData_reverse_witness:
  "rev (sortedData iso_time_value \<lparr>key = ''date'', direction = ''desc''\<rparr>
      [record_2023, record_2020, record_2024])
     = sortedData iso_time_value \<lparr>key = ''date'', direction = ''asc''\<rparr>
      [record_2023, record_2020, record_2024]
   \<and> sortedData iso_time_value \<lparr>key = ''date'', direction = ''asc''\<rparr>
      [record_2023, record_2020, record_2024] = [record_2020, record_2023, record_2024]
   \<and> rev (sortedData iso_time_value \<lparr>key = ''revenue'', direction = ''desc''\<rparr>
      [record_2023, record_null_revenue, record_2020])
     = sortedData iso_time_value \<lparr>key = ''revenue'', direction = ''asc''\<rparr>
      [record_2023, record_null_revenue, record_2020]
   \<and> sortedData iso_time_value \<lparr>key = ''revenue'', direction = ''asc''\<rparr>
      [record_2023, record_null_revenue, record_2020]
     = [record_null_revenue, record_2020, record_2023]"
  using sortedData_reverse [of "''date''" "[record_2023, record_2020, record_2024]"
      iso_time_value initialFilters "[]" "[]"]
    sortedData_reverse [of "''revenue''" "[record_2023, record_null_revenue, record_2020]"
      iso_time_value initialFilters
      "[record_2023, record_absent_revenue, record_null_revenue, record_2020]" "[]"]
    applyFilters_null_revenue
  by (simp add: sort_eval record_defs iso_time_value_examples double_record_def)

text \<open>
  C9. The sort works on a copy: after the sorted view has been computed, the array
  \<open>filteredData\<close> holds the same elements in the same order as before, as does every
  other array of the store; the sorted elements are in a new array.
\<close>

theorem sortedData_copies_input:
  assumes "filteredData < length h"
    and "sortedData_store tv cfg h filteredData = (sortableData, h')"
  shows "h' ! filteredData = h ! filteredData
    \<and> sortableData \<noteq> filteredData
    \<and> (\<forall>a<length h. h' ! a = h ! a)
    \<and> h' ! sortableData = sortedData tv cfg (h ! filteredData)"
  using sortedData_store_frame [OF assms] assms(1) by simp

theorem sortedData_copies_input_witness:
  "snd (sortedData_store iso_time_value \<lparr>key = ''revenue'', direction = ''desc''\<rparr>
      [[record_2020, record_2023]] 0) ! 0 = [record_2020, record_2023]
   \<and> snd (sortedData_store iso_time_value \<lparr>key = ''revenue'', direction = ''desc''\<rparr>
      [[record_2020, record_2023]] 0) ! 1 = [record_2023, record_2020]"
  using sortedData_copies_input [of 0 "[[record_2020, record_2023]]" iso_time_value
      "\<lparr>key = ''revenue'', direction = ''desc''\<rparr>"
      "fst (sortedData_store iso_time_value \<lparr>key = ''revenue'', direction = ''desc''\<rparr>
        [[record_2020, record_2023]] 0)"
      "snd (sortedData_store iso_time_value \<lparr>key = ''revenue'', direction = ''desc''\<rparr>
        [[record_2020, record_2023]] 0)"]
  by (simp add: sortedData_store_def spread_copy_def sort_in_place_def sort_eval record_defs)

section \<open>The formatter: totality and the three decimals\<close>

lemma digit_char_simps [simp]:
  "digit_char 0 = CHR ''0''" "digit_char 1 = CHR ''1''" "digit_char (Suc 0) = CHR ''1''"
  "digit_char (numeral k) = ''0123456789'' ! numeral k"
  by (simp_all add: digit_char_def)

lemma decimal_digits_small [simp]:
  "decimal_digits 0 = ''0''" "decimal_digits 1 = ''1''" "decimal_digits (Suc 0) = ''1''"
  by (simp_all add: decimal_digits.simps)

lemma decimal_digits_numeral [simp]:
  "decimal_digits (numeral k) =
     (if numeral k < (10::nat) then [digit_char (numeral k)]
      else decimal_digits (numeral k div 10) @ [digit_char (numeral k mod 10)])"
  by (rule decimal_digits.simps)

lemma decimal_digits_last3:
  assumes "1000 \<le> n"
  shows "decimal_digits n = decimal_digits (n div 1000)
     @ [digit_char (n div 100 mod 10), digit_char (n div 10 mod 10), digit_char (n mod 10)]"
proof -
  from assms have "decimal_digits n = decimal_digits (n div 10) @ [digit_char (n mod 10)]"
    by (subst decimal_digits.simps) simp
  also from assms have "decimal_digits (n div 10)
      = decimal_digits (n div 10 div 10) @ [digit_char (n div 10 mod 10)]"
    by (subst decimal_digits.simps) simp
  also from assms have "decimal_digits (n div 10 div 10)
      = decimal_digits (n div 10 div 10 div 10) @ [digit_char (n div 10 div 10 mod 10)]"
    by (subst decimal_digits.simps) simp
  finally show ?thesis by (simp add: div_mult2_eq [symmetric])
qed

lemma length_decimal_digits: "0 < length (decimal_digits n)"
  by (subst decimal_digits.simps) simp

lemma replicate_small:
  "replicate 2 x = [x, x]" "replicate 3 x = [x, x, x]"
  by (simp_all add: numeral_2_eq_2 numeral_3_eq_3)

lemma pad_and_point: "fixed_notation n 3 = three_decimals n"
proof -
  consider "n < 10" | "10 \<le> n" "n < 100" | "100 \<le> n" "n < 1000" | "1000 \<le> n" by linarith
  then show ?thesis
  proof cases
    case 1
    then have "decimal_digits n = [digit_char n]" by (subst decimal_digits.simps) simp
    with 1 show ?thesis by (simp add: fixed_notation_def three_decimals_def replicate_small)
  next
    case 2
    then have "decimal_digits n = [digit_char (n div 10), digit_char (n mod 10)]"
      by (subst decimal_digits.simps, subst decimal_digits.simps) simp
    with 2 show ?thesis by (simp add: fixed_notation_def three_decimals_def replicate_small)
  next
    case 3
    then have "n div 10 div 10 < 10" by simp
    with 3 have "decimal_digits n
        = [digit_char (n div 10 div 10), digit_char (n div 10 mod 10), digit_char (n mod 10)]"
      by (subst decimal_digits.simps, subst decimal_digits.simps, subst decimal_digits.simps) simp
    with 3 show ?thesis by (simp add: fixed_notation_def three_decimals_def replicate_small div_mult2_eq [symmetric])
  next
    case 4
    show ?thesis
      using length_decimal_digits [of "n div 1000"]
      by (simp add: fixed_notation_def decimal_digits_last3 [OF 4] three_decimals_def)
  qed
qed

lemma toFixed_three:
  assumes "\<bar>q\<bar> < 10 ^ 21"
  shows "toFixed (Fin q) 3
     = Inr ((if q < 0 then ''-'' else '''') @ three_decimals (nat \<lfloor>\<bar>q\<bar> * 1000 + 1 / 2\<rfloor>))"
  using assms by (simp add: toFixed_def Let_def pad_and_point)

lemma toFixed_total: "0 \<le> f \<Longrightarrow> f \<le> 100 \<Longrightarrow> \<exists>s. toFixed x f = Inr s"
  by (cases x) (simp_all add: toFixed_def Let_def)

lemma formatToBillions_total: "\<exists>s. formatToBillions num = Inr s"
  using toFixed_total [of 3 "js_div_by (ToNumber num) 1000000000"]
  by (auto simp: formatToBillions_def)

lemma nearest_thousandth:
  "\<bar>real (nat \<lfloor>a * 1000 + 1 / 2\<rfloor>) / 1000 - a\<bar> \<le> 1 / 2000" if "0 \<le> a"
proof -
  define k where "k = \<lfloor>a * 1000 + 1 / 2\<rfloor>"
  have "0 \<le> k" using that by (simp add: k_def)
  then have n: "real (nat k) = of_int k" by simp
  have "of_int k \<le> a * 1000 + 1 / 2" and "a * 1000 + 1 / 2 < of_int k + 1"
    unfolding k_def by linarith+
  then have "- (1 / 2000) \<le> real_of_int k / 1000 - a" and "real_of_int k / 1000 - a \<le> 1 / 2000"
    by linarith+
  then have "\<bar>real_of_int k / 1000 - a\<bar> \<le> 1 / 2000" by linarith
  then show ?thesis unfolding k_def [symmetric] n .
qed

lemma formatToBillions_finite:
  assumes "round_double (x / 1000000000) = Fin q" and "\<bar>q\<bar> < 10 ^ 21"
  shows "formatToBillions (JNum (Fin x))
     = Inr ((if q < 0 then ''-'' else '''')
        @ three_decimals (nat \<lfloor>\<bar>q\<bar> * 1000 + 1 / 2\<rfloor>) @ '' B'')"
  using assms by (simp add: formatToBillions_def toFixed_three)

text \<open>
  The formatter never raises, and it returns \<open>N/A\<close> for \<open>null\<close> and for \<open>undefined\<close>. For
  every finite number whose quotient by one billion, as a double, is below \<open>10 ^ 21\<close> in
  magnitude, it returns that quotient rounded to the nearest thousandth (the one larger
  in magnitude of two), written with exactly three decimals and followed by \<open> B\<close>.
\<close>

lemma formatToBillions_three_decimals:
  "formatToBillions JNull = Inr ''N/A''
   \<and> formatToBillions JUndefined = Inr ''N/A''
   \<and> (\<exists>s. formatToBillions num = Inr s)
   \<and> (round_double (x / 1000000000) = Fin q \<and> \<bar>q\<bar> < 10 ^ 21 \<longrightarrow>
        formatToBillions (JNum (Fin x))
          = Inr ((if q < 0 then ''-'' else '''')
              @ three_decimals (nat \<lfloor>\<bar>q\<bar> * 1000 + 1 / 2\<rfloor>) @ '' B'')
        \<and> \<bar>real (nat \<lfloor>\<bar>q\<bar> * 1000 + 1 / 2\<rfloor>) / 1000 - \<bar>q\<bar>\<bar> \<le> 1 / 2000)"
proof -
  have "formatToBillions JNull = Inr ''N/A''" "formatToBillions JUndefined = Inr ''N/A''"
    by (simp_all add: formatToBillions_def)
  moreover have "\<exists>s. formatToBillions num = Inr s" by (rule formatToBillions_total)
  moreover have "\<bar>real (nat \<lfloor>\<bar>q\<bar> * 1000 + 1 / 2\<rfloor>) / 1000 - \<bar>q\<bar>\<bar> \<le> 1 / 2000"
    by (rule nearest_thousandth) simp
  ultimately show ?thesis
    using formatToBillions_finite [of x q] by blast
qed

text \<open>
  One billion is formatted as \<open>1.000 B\<close> and 383285000000 as \<open>383.285 B\<close>; the double
  nearest to 383.285 is 6742821028033987 / 2 ^ 44.
\<close>

lemma formatToBillions_examples:
  "formatToBillions (JNum (Fin 1000000000)) = Inr ''1.000 B''
   \<and> formatToBillions (JNum (Fin 383285000000)) = Inr ''383.285 B''"
  using formatToBillions_three_decimals [of JNull 1000000000 1]
    formatToBillions_three_decimals [of JNull 383285000000 "6742821028033987 / 17592186044416"]
  by (simp add: round_eval three_decimals_def)

lemma toString_large_ten_21: "toString_large (10 ^ 21) = ''1e+21''"
proof -
  have d: "decimal_digits (nat \<lfloor>(10::real) ^ 21\<rfloor>) = ''1000000000000000000000''"
    by simp
  have l: "length ''1000000000000000000000'' = 22" by simp
  have s: "shortest_digits (10 ^ 21) 22 1 = (1, 21)"
    by (simp add: shortest_digits.simps round_eval)
  show ?thesis
    unfolding toString_large_def d l s Let_def by simp
qed

lemma formatToBillions_large:
  assumes "round_double (x / 1000000000) = Fin q" and "10 ^ 21 \<le> \<bar>q\<bar>"
  shows "formatToBillions (JNum (Fin x))
     = Inr ((if q < 0 then ''-'' else '''') @ toString_large \<bar>q\<bar> @ '' B'')"
  using assms by (simp add: formatToBillions_def toFixed_def Let_def)

lemma double_ten_30: "is_double 1000000000000000019884624838656"
  by (simp add: is_double_def round_eval)

lemma quotient_ten_21:
  "round_double (1000000000000000019884624838656 / 1000000000) = Fin (10 ^ 21)"
  by (simp add: round_eval)

text \<open>
  C8. The source says of the formatter \<open>Format to 3 decimal places\<close>, as the
  specification does, and \<open>toFixed(3)\<close> does so below \<open>10 ^ 21\<close> only: from there on it returns the text of
  \<open>toString\<close>, and for a value that is not finite its name. The number \<open>1e30\<close> of a
  response is the double 1000000000000000019884624838656; its quotient by one billion
  is the double \<open>10 ^ 21\<close>, and the formatter returns \<open>1e+21 B\<close>, without decimals.
  Infinity, which the number \<open>1e999\<close> of a response yields, comes out as \<open>Infinity B\<close>.
\<close>

theorem formatToBillions_exponential:
  "is_double 1000000000000000019884624838656
   \<and> js_div_by (Fin 1000000000000000019884624838656) 1000000000 = Fin (10 ^ 21)
   \<and> formatToBillions (JNum (Fin 1000000000000000019884624838656)) = Inr ''1e+21 B''
   \<and> formatToBillions (JNum PInf) = Inr ''Infinity B''"
proof -
  have "js_div_by (Fin 1000000000000000019884624838656) 1000000000 = Fin (10 ^ 21)"
    by (simp only: js_div_by.simps quotient_ten_21)
  moreover have "formatToBillions (JNum (Fin 1000000000000000019884624838656)) = Inr ''1e+21 B''"
    using formatToBillions_large [OF quotient_ten_21]
    by (simp add: toString_large_ten_21 del: power_numeral)
  moreover have "formatToBillions (JNum PInf) = Inr ''Infinity B''"
    by (simp add: formatToBillions_def toFixed_def)
  ultimately show ?thesis using double_ten_30 by blast
qed

section \<open>Header clicks\<close>

lemma handleSort_key: "key (handleSort cfg k) = k"
  by (simp add: handleSort_def)

lemma handleSort_direction:
  "direction (handleSort cfg k) =
     (if cfg = \<lparr>key = k, direction = ''asc''\<rparr> then ''desc'' else ''asc'')"
  by (cases cfg) (auto simp: handleSort_def)

lemma handleSort_twice:
  "handleSort (handleSort cfg k) k =
     (if cfg = \<lparr>key = k, direction = ''asc''\<rparr>
      then \<lparr>key = k, direction = ''asc''\<rparr> else \<lparr>key = k, direction = ''desc''\<rparr>)"
  by (cases cfg) (auto simp: handleSort_def)

lemma handleSort_thrice: "handleSort (handleSort (handleSort cfg k) k) k = handleSort cfg k"
  by (cases cfg) (auto simp: handleSort_def)

text \<open>
  C10 (as amended). A click on the header of key \<open>k\<close> sets \<open>{key: k, direction: desc}\<close>
  when the current configuration is \<open>{key: k, direction: asc}\<close>, and
  \<open>{key: k, direction: asc}\<close> in every other case. The third of three clicks on the same
  column sets what the first one set: ascending exactly when the column was not the
  ascending sort column before the first click.
\<close>

theorem handleSort_click:
  "handleSort cfg k =
     (if cfg = \<lparr>key = k, direction = ''asc''\<rparr>
      then \<lparr>key = k, direction = ''desc''\<rparr> else \<lparr>key = k, direction = ''asc''\<rparr>)
   \<and> handleSort (handleSort (handleSort cfg k) k) k = handleSort cfg k
   \<and> (direction (handleSort (handleSort (handleSort cfg k) k) k) = ''asc''
        \<longleftrightarrow> cfg \<noteq> \<lparr>key = k, direction = ''asc''\<rparr>)"
  by (cases cfg) (auto simp: handleSort_def)

text \<open>
  From the initial configuration, which sorts by date ascending, three clicks on the
  date header give descending, ascending, descending.
\<close>

theorem handleSort_third_click_counterexample:
  "handleSort (handleSort (handleSort initialSortConfig ''date'') ''date'') ''date''
     = \<lparr>key = ''date'', direction = ''desc''\<rparr>"
  by (simp add: handleSort_def initialSortConfig_def)

theorem handleSort_click_witness:
  "handleSort \<lparr>key = ''revenue'', direction = ''desc''\<rparr> ''revenue''
     = \<lparr>key = ''revenue'', direction = ''asc''\<rparr>
   \<and> handleSort \<lparr>key = ''revenue'', direction = ''asc''\<rparr> ''revenue''
     = \<lparr>key = ''revenue'', direction = ''desc''\<rparr>"
  using handleSort_click [of "\<lparr>key = ''revenue'', direction = ''desc''\<rparr>" "''revenue''"]
        handleSort_click [of "\<lparr>key = ''revenue'', direction = ''asc''\<rparr>" "''revenue''"]
  by simp

end
